theory Spec2Isabelle
  imports Complex_Main
begin

section \<open>Python values used by both programs\<close>

text \<open>
  Python's \<open>str(n)\<close> for an integer: the decimal digits, most significant first, with a
  leading minus sign for a negative number. Strings are lists of 8-bit characters; every
  string the modelled code builds itself is ASCII.
\<close>

definition digit_char :: "nat \<Rightarrow> char" where
  "digit_char d = ''0123456789'' ! (d mod 10)"

function str_nat :: "nat \<Rightarrow> string" where
  "str_nat n = (if n < 10 then [digit_char n] else str_nat (n div 10) @ [digit_char (n mod 10)])"
  by pat_completeness auto
termination
  by (relation "measure id") auto

declare str_nat.simps [simp del]

definition str_int :: "int \<Rightarrow> string" where
  "str_int i = (if i < 0 then CHR ''-'' # str_nat (nat (- i)) else str_nat (nat i))"

text \<open>
  Python's \<open>int(s)\<close> for a string: surrounding whitespace is stripped, one sign is
  allowed, and the rest must be decimal digits, where single underscores may separate
  digits. Anything else raises \<open>ValueError\<close>.
\<close>

datatype exn =
    ValueError
  | IndexError
  | AssertionError
  | FileExistsError
  | QueueEmpty
  | KeyboardInterrupt
  | SystemExit int
  | RepeatedAddPermuter
  | ImmediateDisconnectNotImmediate
  | JsonPropError
  | KeyError

definition is_space :: "char \<Rightarrow> bool" where
  "is_space c = (c \<in> set [CHR '' '', CHR 0x09, CHR 0x0A, CHR 0x0B, CHR 0x0C, CHR 0x0D,
                            CHR 0x1C, CHR 0x1D, CHR 0x1E, CHR 0x1F])"

definition strip :: "string \<Rightarrow> string" where
  "strip s = rev (dropWhile is_space (rev (dropWhile is_space s)))"

definition is_digit :: "char \<Rightarrow> bool" where
  "is_digit c = (c \<in> set ''0123456789'')"

definition digit_val :: "char \<Rightarrow> nat" where
  "digit_val c = length (takeWhile (\<lambda>d. d \<noteq> c) ''0123456789'')"

fun valid_digits :: "string \<Rightarrow> bool" where
  "valid_digits [] = False"
| "valid_digits [c] = is_digit c"
| "valid_digits (c # d # cs) =
     (is_digit c \<and> (if d = CHR ''_'' then valid_digits cs else valid_digits (d # cs)))"

fun digits_value :: "nat \<Rightarrow> string \<Rightarrow> nat" where
  "digits_value acc [] = acc"
| "digits_value acc (c # cs) =
     (if c = CHR ''_'' then digits_value acc cs else digits_value (10 * acc + digit_val c) cs)"

definition py_int :: "string \<Rightarrow> exn + int" where
  "py_int s =
     (let t = strip s;
          (sign, body) = (case t of
              [] \<Rightarrow> (1, t)
            | c # r \<Rightarrow> if c = CHR ''-'' then (- 1, r) else if c = CHR ''+'' then (1, r) else (1, t))
      in if valid_digits body then Inr (sign * int (digits_value 0 body)) else Inl ValueError)"

text \<open>
  JSON values, and a Python \<open>dict\<close> with string keys as an association list in insertion
  order. Storing under a key that is present replaces the value in place; a new key goes
  to the end. Floats are passed through, never computed with; they are reals here.
\<close>

datatype json =
    JNull
  | JBool bool
  | JInt int
  | JFloat real
  | JStr string
  | JObj "(string \<times> json) list"

type_synonym dict = "(string \<times> json) list"

fun dict_set :: "dict \<Rightarrow> string \<Rightarrow> json \<Rightarrow> dict" where
  "dict_set [] k v = [(k, v)]"
| "dict_set ((k', v') # d) k v = (if k' = k then (k, v) # d else (k', v') # dict_set d k v)"

fun dict_merge :: "dict \<Rightarrow> dict \<Rightarrow> dict" where
  "dict_merge d [] = d"
| "dict_merge d ((k, v) # e) = dict_merge (dict_set d k v) e"

definition dict_get :: "dict \<Rightarrow> string \<Rightarrow> json option" where
  "dict_get d k = map_of d k"


section \<open>The server (\<open>src/net/server.py\<close>)\<close>

subsection \<open>Messages\<close>

record client =
  client_id :: string
  nickname :: string

record permuter_data =
  fn_name :: string
  filename :: string
  keep_prob :: real
  stack_differences :: bool
  compile_script :: string
  pd_source :: string
  target_o_bin :: string

datatype activity =
    AddPermuter int client permuter_data
  | RemovePermuter int
  | Work int int
  | ImmediateDisconnect int client string
  | Disconnect int
  | PermInitFail string string
  | PermInitSuccess string int string real
  | WorkDone string dict real "string option"
  | NeedMoreWork
  | NetThreadDisconnected nat
  | Heartbeat
  | Shutdown

datatype output_msg =
    OutputDisconnect int
  | OutputInitFail int string
  | OutputInitSuccess int real int string
  | OutputNeedMoreWork
  | OutputWork int real dict "string option"
  | OutputShutdown

datatype io_message =
    IoConnect string client
  | IoDisconnect string
  | IoImmediateDisconnect string client
  | IoWorkDone "int option" bool

datatype io_activity =
    IoFor int io_message
  | IoShutdown
  | IoWillSleep

text \<open>What is written to the evaluator port: a JSON frame or a frame of raw bytes.\<close>

datatype frame =
    SendJson dict
  | SendRaw string

subsection \<open>State\<close>

text \<open>
  The fields of \<open>Server\<close> that \<open>_handle_message\<close> reads and writes. \<open>net_thread\<close> holds
  the thread id of the attached \<open>NetThread\<close>, if any; \<open>controller_queue\<close> is what has
  been put on that thread's controller queue; \<open>evaluator_port\<close> and \<open>io_queue\<close> are what
  has been written to the evaluator port and put on the I/O queue, oldest first. The port
  is taken to accept every write. \<open>active\<close> is the set \<open>_active\<close>, kept as a list
  without repetitions in insertion order, which fixes the order in which the
  \<open>NetThreadDisconnected\<close> branch walks it.
\<close>

record server =
  net_thread :: "nat option"
  controller_queue :: "output_msg list"
  evaluator_port :: "frame list"
  io_queue :: "io_activity list"
  active :: "int list"
  stdout :: "string list"

definition set_add :: "int list \<Rightarrow> int \<Rightarrow> int list" where
  "set_add xs h = (if h \<in> set xs then xs else xs @ [h])"

definition send_controller :: "output_msg \<Rightarrow> server \<Rightarrow> server" where
  "send_controller msg s =
     (case net_thread s of
        None \<Rightarrow> s
      | Some t \<Rightarrow> s\<lparr>controller_queue := controller_queue s @ [msg]\<rparr>)"

definition send_io :: "int \<Rightarrow> io_message \<Rightarrow> server \<Rightarrow> server" where
  "send_io handle io_msg s = s\<lparr>io_queue := io_queue s @ [IoFor handle io_msg]\<rparr>"

definition send_io_global :: "io_activity \<Rightarrow> server \<Rightarrow> server" where
  "send_io_global io_msg s = s\<lparr>io_queue := io_queue s @ [io_msg]\<rparr>"

definition send_json :: "dict \<Rightarrow> server \<Rightarrow> server" where
  "send_json d s = s\<lparr>evaluator_port := evaluator_port s @ [SendJson d]\<rparr>"

definition send_raw :: "string \<Rightarrow> server \<Rightarrow> server" where
  "send_raw b s = s\<lparr>evaluator_port := evaluator_port s @ [SendRaw b]\<rparr>"

definition need_work :: "server \<Rightarrow> server" where
  "need_work s = send_controller OutputNeedMoreWork s"

text \<open>\<open>_remove\<close>: the message goes out first, then \<open>set.remove\<close>, which raises
  \<open>KeyError\<close> for a handle that is not in the set.\<close>

definition remove_handle :: "int \<Rightarrow> server \<Rightarrow> exn + server" where
  "remove_handle handle s =
     (let s1 = send_json [(''type'', JStr ''remove''), (''id'', JStr (str_int handle))] s
      in if handle \<in> set (active s1)
         then Inr (s1\<lparr>active := removeAll handle (active s1)\<rparr>)
         else Inl KeyError)"

text \<open>Modelled from the spec: \<open>permuter_data_to_json\<close> of \<open>src/net/core.py\<close>, which is
  not among the sources. The spec gives the wire form of PermuterData as \<open>fn_name\<close>,
  \<open>filename\<close>, \<open>keep_prob\<close>, \<open>stack_differences\<close>, \<open>compile_script\<close>, \<open>source\<close> and
  \<open>target_o_bin\<close>, the last two travelling as the raw frames that follow the JSON.\<close>

definition permuter_data_to_json :: "permuter_data \<Rightarrow> dict" where
  "permuter_data_to_json perm =
     [(''fn_name'', JStr (fn_name perm)),
      (''filename'', JStr (filename perm)),
      (''keep_prob'', JFloat (keep_prob perm)),
      (''stack_differences'', JBool (stack_differences perm)),
      (''compile_script'', JStr (compile_script perm))]"

definition send_permuter :: "string \<Rightarrow> permuter_data \<Rightarrow> server \<Rightarrow> server" where
  "send_permuter ident perm s =
     send_raw (target_o_bin perm)
       (send_raw (pd_source perm)
         (send_json (dict_merge [(''type'', JStr ''add''), (''id'', JStr ident)]
                       (permuter_data_to_json perm)) s))"

definition stop_net_thread :: "server \<Rightarrow> server" where
  "stop_net_thread s =
     (case net_thread s of
        None \<Rightarrow> s
      | Some t \<Rightarrow> s\<lparr>controller_queue := controller_queue s @ [OutputShutdown], net_thread := None\<rparr>)"

fun remove_all :: "int list \<Rightarrow> server \<Rightarrow> exn + server" where
  "remove_all [] s = Inr s"
| "remove_all (handle # hs) s =
     (case remove_handle handle s of Inl e \<Rightarrow> Inl e | Inr s' \<Rightarrow> remove_all hs s')"

subsection \<open>\<open>Server._handle_message\<close>\<close>

text \<open>
  \<open>json_prop\<close> of \<open>src/net/core.py\<close> is not among the sources; its instance at type
  \<open>int\<close> is the parameter \<open>jp\<close>. A raised exception is a left result: it leaves
  \<open>_handle_message\<close> and ends the main loop's thread.
\<close>

fun handle_message :: "(dict \<Rightarrow> string \<Rightarrow> exn + int) \<Rightarrow> activity \<Rightarrow> server \<Rightarrow> exn + server" where
  "handle_message jp Shutdown s = Inr s"
| "handle_message jp Heartbeat s = Inr s"
| "handle_message jp (Work handle seed) s =
     (if handle \<notin> set (active s) then Inr (need_work s)
      else Inr (send_json [(''type'', JStr ''work''), (''id'', JStr (str_int handle)),
                           (''seed'', JInt seed)] s))"
| "handle_message jp (AddPermuter handle cl perm) s =
     (if handle \<in> set (active s) then Inl RepeatedAddPermuter
      else Inr (send_io handle (IoConnect (fn_name perm) cl)
                  (send_permuter (str_int handle) perm
                     (s\<lparr>active := set_add (active s) handle\<rparr>))))"
| "handle_message jp (RemovePermuter handle) s =
     (if handle \<notin> set (active s) then Inr s
      else case remove_handle handle s of
             Inl e \<Rightarrow> Inl e
           | Inr s1 \<Rightarrow> Inr (send_io handle (IoDisconnect ''disconnected'') s1))"
| "handle_message jp (Disconnect handle) s =
     (if handle \<notin> set (active s) then Inr s
      else case remove_handle handle s of
             Inl e \<Rightarrow> Inl e
           | Inr s1 \<Rightarrow> Inr (send_controller (OutputDisconnect handle)
                             (send_io handle (IoDisconnect ''kicked'') s1)))"
| "handle_message jp (ImmediateDisconnect handle cl reason) s =
     (if handle \<in> set (active s) then Inl ImmediateDisconnectNotImmediate
      else Inr (send_controller (OutputDisconnect handle)
                  (send_io handle (IoImmediateDisconnect ''sent garbage message'' cl) s)))"
| "handle_message jp (PermInitFail perm_id err) s =
     (case py_int perm_id of
        Inl e \<Rightarrow> Inl e
      | Inr handle \<Rightarrow>
          if handle \<notin> set (active s) then Inr (need_work s)
          else Inr (send_controller (OutputInitFail handle err)
                      (send_io handle (IoDisconnect ''failed to compile'')
                         (s\<lparr>active := removeAll handle (active s)\<rparr>))))"
| "handle_message jp (PermInitSuccess perm_id base_score base_hash time_us) s =
     (case py_int perm_id of
        Inl e \<Rightarrow> Inl e
      | Inr handle \<Rightarrow>
          if handle \<notin> set (active s) then Inr (need_work s)
          else Inr (send_controller (OutputInitSuccess handle time_us base_score base_hash) s))"
| "handle_message jp (WorkDone perm_id obj0 time_us compressed_source) s =
     (case py_int perm_id of
        Inl e \<Rightarrow> Inl e
      | Inr handle \<Rightarrow>
          if handle \<notin> set (active s) then Inr (need_work s)
          else
            let obj = dict_set obj0 ''permuter'' (JInt handle) in
            (case (if dict_get obj ''score'' \<noteq> None
                   then map_sum id Some (jp obj ''score'') else Inr None) of
               Inl e \<Rightarrow> Inl e
             | Inr score \<Rightarrow>
                 Inr (send_controller (OutputWork handle time_us obj compressed_source)
                        (send_io handle (IoWorkDone score (compressed_source \<noteq> None)) s))))"
| "handle_message jp NeedMoreWork s = Inr (need_work s)"
| "handle_message jp (NetThreadDisconnected thread_id) s =
     (if net_thread s = None \<or> net_thread s \<noteq> Some thread_id then Inr s
      else case remove_all (active s) s of
             Inl e \<Rightarrow> Inl e
           | Inr s1 \<Rightarrow>
               Inr (stop_net_thread (s1\<lparr>stdout := stdout s1 @ [''disconnected from permuter@home'']\<rparr>)))"

text \<open>
  \<open>Server._main_loop\<close> on the messages that arrive, each paired with what
  \<open>_main_queue.empty()\<close> answers after it has been handled.
\<close>

fun main_loop :: "(dict \<Rightarrow> string \<Rightarrow> exn + int) \<Rightarrow> (activity \<times> bool) list \<Rightarrow> server \<Rightarrow> exn + server" where
  "main_loop jp [] s = Inr s"
| "main_loop jp ((msg, queue_empty) # rest) s =
     (if msg = Shutdown then Inr s
      else case handle_message jp msg s of
             Inl e \<Rightarrow> Inl e
           | Inr s1 \<Rightarrow>
               main_loop jp rest
                 (if active s1 = [] \<and> queue_empty then send_io_global IoWillSleep s1 else s1))"

text \<open>\<open>Server.__init__\<close> followed by \<open>Server.start\<close>: the first net thread has id 0.\<close>

definition started :: server where
  "started = \<lparr>net_thread = Some 0, controller_queue = [], evaluator_port = [], io_queue = [],
              active = [], stdout = []\<rparr>"

subsection \<open>What the evaluator has been told\<close>

text \<open>
  The frames written to the evaluator port are read as a history. \<open>told_add ident fs\<close>
  says that \<open>fs\<close> holds an \<open>add\<close> message for \<open>ident\<close> directly followed by its two raw
  frames, and no \<open>remove\<close> message for \<open>ident\<close> after it.
\<close>

definition is_add :: "string \<Rightarrow> frame \<Rightarrow> bool" where
  "is_add ident f = (case f of
      SendJson d \<Rightarrow> dict_get d ''type'' = Some (JStr ''add'') \<and> dict_get d ''id'' = Some (JStr ident)
    | SendRaw b \<Rightarrow> False)"

definition is_remove :: "string \<Rightarrow> frame \<Rightarrow> bool" where
  "is_remove ident f = (case f of
      SendJson d \<Rightarrow> dict_get d ''type'' = Some (JStr ''remove'') \<and> dict_get d ''id'' = Some (JStr ident)
    | SendRaw b \<Rightarrow> False)"

definition is_raw :: "frame \<Rightarrow> bool" where
  "is_raw f = (case f of SendJson d \<Rightarrow> False | SendRaw b \<Rightarrow> True)"

definition told_add :: "string \<Rightarrow> frame list \<Rightarrow> bool" where
  "told_add ident fs =
     (\<exists>i \<in> {0..<length fs}.
        is_add ident (fs ! i) \<and> i + 2 < length fs \<and> is_raw (fs ! (i + 1)) \<and> is_raw (fs ! (i + 2)) \<and>
        (\<forall>j \<in> {i<..<length fs}. \<not> is_remove ident (fs ! j)))"

text \<open>Concrete values for the examples: a \<open>json_prop\<close> at type \<open>int\<close>, a client and a
  permuter.\<close>

definition json_prop_int :: "dict \<Rightarrow> string \<Rightarrow> exn + int" where
  "json_prop_int d k = (case dict_get d k of Some (JInt i) \<Rightarrow> Inr i | _ \<Rightarrow> Inl JsonPropError)"

definition alice :: client where
  "alice = \<lparr>client_id = ''c1'', nickname = ''alice''\<rparr>"

definition func_data :: permuter_data where
  "func_data = \<lparr>fn_name = ''func'', filename = ''base.c'', keep_prob = 0.6,
                 stack_differences = False, compile_script = ''cc'', pd_source = ''int x;'',
                 target_o_bin = ''ELF''\<rparr>"

text \<open>The per-active-handle invariant: the evaluator has been told to add every active
  handle and has not been told to remove it since.\<close>

definition evaluator_knows_active :: "server \<Rightarrow> bool" where
  "evaluator_knows_active s = (\<forall>h \<in> set (active s). told_add (str_int h) (evaluator_port s))"

text \<open>The server after its net thread has gone, and after a permuter has been added and
  given work.\<close>

definition disconnected :: server where
  "disconnected = \<lparr>net_thread = None, controller_queue = [OutputShutdown], evaluator_port = [],
     io_queue = [], active = [], stdout = [''disconnected from permuter@home'']\<rparr>"

definition working :: server where
  "working = \<lparr>net_thread = Some 0, controller_queue = [],
     evaluator_port =
       [SendJson [(''type'', JStr ''add''), (''id'', JStr ''5''), (''fn_name'', JStr ''func''),
                  (''filename'', JStr ''base.c''), (''keep_prob'', JFloat 0.6),
                  (''stack_differences'', JBool False), (''compile_script'', JStr ''cc'')],
        SendRaw ''int x;'', SendRaw ''ELF'',
        SendJson [(''type'', JStr ''work''), (''id'', JStr ''5''), (''seed'', JInt 7)]],
     io_queue = [IoFor 5 (IoConnect ''func'' alice)], active = [5], stdout = []\<rparr>"


section \<open>The coordinator (\<open>src/main.py\<close>)\<close>

subsection \<open>\<open>cycle_seeds\<close>\<close>

text \<open>
  A Python iterator is a function from the number of items already taken to the next item,
  \<open>None\<close> once it is exhausted, together with that number. \<open>next_item\<close> is
  \<open>next(it, None)\<close>. An iterator may be finite or go on forever.
\<close>

type_synonym 'a iterator = "(nat \<Rightarrow> 'a option) \<times> nat"

definition next_item :: "'a iterator \<Rightarrow> ('a \<times> 'a iterator) option" where
  "next_item it = (case fst it (snd it) of
      None \<Rightarrow> None
    | Some x \<Rightarrow> Some (x, (fst it, Suc (snd it))))"

definition iter_of_list :: "'a list \<Rightarrow> 'a iterator" where
  "iter_of_list xs = ((\<lambda>n. if n < length xs then Some (xs ! n) else None), 0)"

text \<open>
  The generator \<open>cycle_seeds\<close>: its state is the list \<open>iterators\<close>, each iterator paired
  with the index of its permuter (the \<open>zip(itertools.repeat(perm_ind), it)\<close>), and the
  counter \<open>i\<close>. \<open>permuter.seed_iterator()\<close> is not among the sources, so the generator
  starts from the seed iterators themselves. \<open>cycle_next\<close> is one \<open>next()\<close> on the
  generator: it runs the loop up to the next \<open>yield\<close>, or to the end of the loop, which
  is \<open>None\<close>. The \<open>i += 1\<close> after the \<open>yield\<close> is taken with it.
\<close>

function cycle_next ::
  "(nat \<times> 'a iterator) list \<Rightarrow> int \<Rightarrow> ((nat \<times> 'a) \<times> (nat \<times> 'a iterator) list \<times> int) option" where
  "cycle_next iterators i =
     (if iterators = [] then None
      else
        let i1 = i mod int (length iterators);
            k = nat i1
        in case next_item (snd (iterators ! k)) of
             None \<Rightarrow> cycle_next (take k iterators @ drop (Suc k) iterators) (i1 - 1)
           | Some (seed, it) \<Rightarrow>
               Some ((fst (iterators ! k), seed),
                     iterators[k := (fst (iterators ! k), it)], i1 + 1))"
  by pat_completeness auto
termination
proof (relation "measure (\<lambda>(iterators, i). length iterators)")
  show "wf (measure (\<lambda>(iterators :: (nat \<times> 'a iterator) list, i :: int). length iterators))"
    by simp
next
  fix iterators :: "(nat \<times> 'a iterator) list" and i i1 :: int and k :: nat
  assume ne: "iterators \<noteq> []" and i1: "i1 = i mod int (length iterators)" and k: "k = nat i1"
  have "0 \<le> i1" "i1 < int (length iterators)" using ne i1 by simp_all
  then have "k < length iterators" using k by simp
  then show "((take k iterators @ drop (Suc k) iterators, i1 - 1), (iterators, i))
               \<in> measure (\<lambda>(iterators, i). length iterators)"
    by simp
qed

declare cycle_next.simps [simp del]

definition cycle_seeds :: "'a iterator list \<Rightarrow> (nat \<times> 'a iterator) list \<times> int" where
  "cycle_seeds its = (enumerate 0 its, 0)"

text \<open>The first \<open>n\<close> items of the generator, fewer when it ends before.\<close>

fun cycle_take :: "nat \<Rightarrow> (nat \<times> 'a iterator) list \<times> int \<Rightarrow> (nat \<times> 'a) list" where
  "cycle_take 0 st = []"
| "cycle_take (Suc n) st =
     (case cycle_next (fst st) (snd st) of
        None \<Rightarrow> []
      | Some (item, st') \<Rightarrow> item # cycle_take n st')"

subsection \<open>Tasks, results and feedback\<close>

text \<open>
  \<open>Task\<close>, \<open>Feedback\<close> and \<open>EvalResult\<close> come from \<open>src/permuter.py\<close>, which is not
  among the sources; their shapes are the ones \<open>main.py\<close> uses. A task is a pair of a
  permuter index and a seed, or \<open>Finished\<close> with an optional reason. The seed of an
  \<open>EvalError\<close> is an optional pair, read as \<open>seed[0]\<close> and \<open>seed[1]\<close>.
\<close>

datatype task = TaskWork int int | TaskFinished "string option"

type_synonym profiler = "(string \<times> real) list"

record candidate_result =
  score :: int
  hash :: string
  source :: "string option"
  profiler :: profiler

datatype eval_result =
    EvalError string "(int \<times> int) option"
  | Candidate candidate_result

datatype feedback =
    FbWorkDone int eval_result
  | FbNeedMoreWork
  | FbMessage string
  | FbFinished "string option"

text \<open>
  The fields of \<open>Permuter\<close> that \<open>main.py\<close> reads: \<open>penalty_inf\<close> stands for
  \<open>permuter.scorer.PENALTY_INF\<close>. Its methods are not among the sources either and are
  parameters, collected in \<open>ops\<close>, as are the two methods of \<open>Profiler\<close>.
  \<open>record_result\<close> and \<open>try_eval_candidate\<close> change the permuter, so they return it.
\<close>

record permuter =
  dir :: string
  unique_name :: string
  best_score :: int
  base_score :: int
  base_source :: string
  penalty_inf :: int

record ops =
  should_output :: "permuter \<Rightarrow> candidate_result \<Rightarrow> bool"
  record_result :: "permuter \<Rightarrow> candidate_result \<Rightarrow> permuter"
  diff :: "permuter \<Rightarrow> string \<Rightarrow> string"
  try_eval_candidate :: "permuter \<Rightarrow> int \<Rightarrow> eval_result \<times> permuter"
  add_stat :: "profiler \<Rightarrow> string \<Rightarrow> real \<Rightarrow> profiler"
  get_str_stats :: "profiler \<Rightarrow> string"

text \<open>The options that the modelled functions read.\<close>

record options =
  show_timings :: bool
  print_diffs :: bool
  abort_exceptions :: bool
  stop_on_zero :: bool

record eval_context =
  options :: options
  iteration :: int
  errors :: int
  overall_profiler :: profiler
  permuters :: "permuter list"

text \<open>
  What the coordinator does to the outside, in order: \<open>print\<close>, the calls of
  \<open>context.printer\<close> with the arguments as passed (message, permuter, who, and the keyword
  arguments \<open>keep_progress\<close> and \<open>color\<close> when given), \<open>input\<close> and
  \<open>traceback.print_exc\<close>.
\<close>

datatype event =
    Print string
  | PrinterPrint string "permuter option" "string option" "bool option" "string option"
  | PrinterProgress string
  | Input string
  | PrintExc

text \<open>
  The file system is a list of paths, each a directory or a file with its content.
  \<open>os.mkdir\<close> and \<open>open(path, "x")\<close> raise \<open>FileExistsError\<close> when the path exists and
  add it otherwise; their other failures (a missing parent, permissions) are left out.
\<close>

datatype node = Directory | File string

type_synonym filesystem = "(string \<times> node) list"

definition path_exists :: "filesystem \<Rightarrow> string \<Rightarrow> bool" where
  "path_exists fs path = (path \<in> fst ` set fs)"

definition os_mkdir :: "string \<Rightarrow> filesystem \<Rightarrow> exn + filesystem" where
  "os_mkdir path fs = (if path_exists fs path then Inl FileExistsError else Inr (fs @ [(path, Directory)]))"

definition open_x_write :: "string \<Rightarrow> string \<Rightarrow> filesystem \<Rightarrow> exn + filesystem" where
  "open_x_write path content fs =
     (if path_exists fs path then Inl FileExistsError else Inr (fs @ [(path, File content)]))"

text \<open>\<open>os.path.join\<close> of two components on POSIX.\<close>

definition os_path_join :: "string \<Rightarrow> string \<Rightarrow> string" where
  "os_path_join a b =
     (if b \<noteq> [] \<and> hd b = CHR ''/'' then b
      else if a = [] \<or> last a = CHR ''/'' then a @ b
      else a @ ''/'' @ b)"

text \<open>
  The state the coordinator works on: the \<open>EvalContext\<close>, the events so far, the file
  system, and the local variables of \<open>run\<close> and \<open>run_inner\<close>: \<open>active_workers\<close>,
  \<open>found_zero\<close>, the generator \<open>perm_seed_iter\<close>, what has been put on \<open>task_queue\<close>, and
  \<open>last_time\<close>.
\<close>

record state =
  ctx :: eval_context
  events :: "event list"
  files :: filesystem
  active_workers :: int
  found_zero :: bool
  perm_seed_iter :: "(nat \<times> int iterator) list \<times> int"
  task_queue :: "task list"
  last_time :: real

text \<open>How a call ends: it returns a value, raises, or never returns (it loops or waits
  forever). Each carries the state reached.\<close>

datatype 'a result =
    Ok 'a state
  | Raise exn state
  | Hangs state

definition state_of :: "'a result \<Rightarrow> state" where
  "state_of r = (case r of Ok v st \<Rightarrow> st | Raise e st \<Rightarrow> st | Hangs st \<Rightarrow> st)"

definition emit :: "event list \<Rightarrow> state \<Rightarrow> state" where
  "emit es st = st\<lparr>events := events st @ es\<rparr>"

text \<open>Indexing a Python list: a negative index counts from the end, an index out of
  range raises \<open>IndexError\<close>.\<close>

definition py_index :: "nat \<Rightarrow> int \<Rightarrow> exn + nat" where
  "py_index n i =
     (if 0 \<le> i \<and> i < int n then Inr (nat i)
      else if - int n \<le> i \<and> i < 0 then Inr (nat (int n + i))
      else Inl IndexError)"

subsection \<open>\<open>write_candidate\<close>\<close>

definition output_dir_name :: "string \<Rightarrow> int \<Rightarrow> nat \<Rightarrow> string" where
  "output_dir_name d sc ctr = os_path_join d (''output-'' @ str_int sc @ ''-'' @ str_nat ctr)"

text \<open>The \<open>while True\<close> loop of \<open>write_candidate\<close>, entered with the current \<open>ctr\<close>; it
  returns \<open>output_dir\<close> and the file system with the new directory. A loop that never
  ends is \<open>None\<close>.\<close>

partial_function (option) make_output_dir ::
  "filesystem \<Rightarrow> string \<Rightarrow> int \<Rightarrow> nat \<Rightarrow> (exn + string \<times> filesystem) option" where
  "make_output_dir fs d sc ctr =
     (case os_mkdir (output_dir_name d sc (ctr + 1)) fs of
        Inr fs' \<Rightarrow> Some (Inr (output_dir_name d sc (ctr + 1), fs'))
      | Inl e \<Rightarrow>
          if e = FileExistsError then make_output_dir fs d sc (ctr + 1)
          else Some (Inl e))"

text \<open>The four files, each opened with mode \<open>"x"\<close>; the first failure ends the function
  and leaves what has been created.\<close>

fun write_files :: "(string \<times> string) list \<Rightarrow> filesystem \<Rightarrow> exn option \<times> filesystem" where
  "write_files [] fs = (None, fs)"
| "write_files ((path, content) # rest) fs =
     (case open_x_write path content fs of
        Inl e \<Rightarrow> (Some e, fs)
      | Inr fs' \<Rightarrow> write_files rest fs')"

definition write_candidate :: "ops \<Rightarrow> permuter \<Rightarrow> candidate_result \<Rightarrow> state \<Rightarrow> unit result" where
  "write_candidate ms perm res st =
     (case make_output_dir (files st) (dir perm) (score res) 0 of
        None \<Rightarrow> Hangs st
      | Some (Inl e) \<Rightarrow> Raise e st
      | Some (Inr (output_dir, fs1)) \<Rightarrow>
          (case source res of
             None \<Rightarrow> Raise AssertionError (st\<lparr>files := fs1\<rparr>)
           | Some src \<Rightarrow>
               (case write_files
                       [(os_path_join output_dir ''source.c'', src),
                        (os_path_join output_dir ''base.c'', base_source perm),
                        (os_path_join output_dir ''score.txt'', str_int (score res) @ [CHR 0x0A]),
                        (os_path_join output_dir ''diff.txt'', diff ms perm src @ [CHR 0x0A])] fs1 of
                  (Some e, fs2) \<Rightarrow> Raise e (st\<lparr>files := fs2\<rparr>)
                | (None, fs2) \<Rightarrow>
                    Ok () (emit [Print (''wrote to '' @ output_dir)] (st\<lparr>files := fs2\<rparr>)))))"

subsection \<open>\<open>post_score\<close>\<close>

text \<open>
  \<open>post_score\<close> is called with a permuter of \<open>context.permuters\<close> and changes it in
  place; here it takes the permuter's index in that list. It is split at its first
  \<open>if\<close>: \<open>post_score_error\<close> is the branch for an \<open>EvalError\<close>, \<open>post_score_candidate\<close>
  the rest of the function.
\<close>

definition seed_str :: "int \<times> int \<Rightarrow> string" where
  "seed_str sd = (if fst sd \<noteq> 0 then str_int (fst sd) @ '','' @ str_int (snd sd) else str_int (snd sd))"

definition post_score_error :: "permuter \<Rightarrow> string \<Rightarrow> (int \<times> int) option \<Rightarrow> string option \<Rightarrow> state \<Rightarrow> bool result" where
  "post_score_error permuter exc_str seed who st =
     (let st1 = emit [PrinterPrint ''internal permuter failure.'' (Some permuter) who (Some True) None,
                      Print exc_str] st;
          st2 = (case seed of
                   None \<Rightarrow> st1
                 | Some sd \<Rightarrow>
                     emit [Print (''To reproduce the failure, rerun with: --seed '' @ seed_str sd)] st1)
      in if abort_exceptions (options (ctx st2)) then Raise (SystemExit 1) st2 else Ok False st2)"

definition set_permuter :: "nat \<Rightarrow> permuter \<Rightarrow> state \<Rightarrow> state" where
  "set_permuter idx p st = st\<lparr>ctx := (ctx st)\<lparr>permuters := (permuters (ctx st))[idx := p]\<rparr>\<rparr>"

definition score_message :: "int \<Rightarrow> int \<Rightarrow> int \<Rightarrow> string \<times> string" where
  "score_message score_value former_best base =
     (if score_value < former_best then
        (CHR 0x1B # ''[32;1m'',
         ''found new best score! ('' @ str_int score_value @ '' vs '' @ str_int base @ '')'')
      else if score_value = former_best then
        (CHR 0x1B # ''[32;1m'',
         ''tied best score! ('' @ str_int score_value @ '' vs '' @ str_int base @ '')'')
      else if score_value < base then
        (CHR 0x1B # ''[33m'',
         ''found a better score! ('' @ str_int score_value @ '' vs '' @ str_int base @ '')'')
      else
        (CHR 0x1B # ''[33m'',
         ''found different asm with same score ('' @ str_int score_value @ '')''))"

text \<open>The rest of \<open>post_score\<close> in its four parts: the block under
  \<open>if context.options.print_diffs\<close>; the counters and the timings; the status line; and
  the block under \<open>if permuter.should_output(result)\<close>.\<close>

definition show_diff :: "ops \<Rightarrow> permuter \<Rightarrow> candidate_result \<Rightarrow> state \<Rightarrow> exn + state" where
  "show_diff ms permuter res st =
     (if print_diffs (options (ctx st)) then
        (case source res of
           None \<Rightarrow> Inl AssertionError
         | Some src \<Rightarrow>
             Inr (emit [Print [], Print (diff ms permuter src),
                        Input ''Press any key to continue...''] st))
      else Inr st)"

definition count_result :: "ops \<Rightarrow> permuter \<Rightarrow> candidate_result \<Rightarrow> eval_context \<Rightarrow> eval_context" where
  "count_result ms permuter res c =
     (let c1 = c\<lparr>iteration := iteration c + 1\<rparr>;
          c2 = (if score res = penalty_inf permuter then c1\<lparr>errors := errors c1 + 1\<rparr> else c1)
      in if show_timings (options c2)
         then c2\<lparr>overall_profiler :=
                 fold (\<lambda>(stattype, t) p. add_stat ms p stattype t) (profiler res) (overall_profiler c2)\<rparr>
         else c2)"

definition status_line :: "ops \<Rightarrow> permuter \<Rightarrow> candidate_result \<Rightarrow> eval_context \<Rightarrow> string" where
  "status_line ms permuter res c =
     (let disp_score = (if score res = penalty_inf permuter then ''inf'' else str_int (score res));
          timings = (if show_timings (options c)
                     then CHR '' '' # CHR '' '' # CHR 0x09 # get_str_stats ms (overall_profiler c)
                     else [])
      in ''iteration '' @ str_int (iteration c) @ '', '' @ str_int (errors c) @
         '' errors, score = '' @ disp_score @ timings)"

definition output_candidate ::
  "ops \<Rightarrow> nat \<Rightarrow> permuter \<Rightarrow> candidate_result \<Rightarrow> string option \<Rightarrow> state \<Rightarrow> unit result" where
  "output_candidate ms idx permuter res who st =
     (if should_output ms permuter res then
        (let former_best = best_score permuter;
             permuter1 = record_result ms permuter res;
             (color, msg) = score_message (score res) former_best (base_score permuter1);
             st1 = emit [PrinterPrint msg (Some permuter1) who None (Some color)]
                     (set_permuter idx permuter1 st)
         in write_candidate ms permuter1 res st1)
      else Ok () st)"

definition post_score_candidate :: "ops \<Rightarrow> nat \<Rightarrow> candidate_result \<Rightarrow> string option \<Rightarrow> state \<Rightarrow> bool result" where
  "post_score_candidate ms idx res who st =
     (let permuter = permuters (ctx st) ! idx in
      case show_diff ms permuter res st of
        Inl e \<Rightarrow> Raise e st
      | Inr st1 \<Rightarrow>
          let c = count_result ms permuter res (ctx st1) in
          (case output_candidate ms idx permuter res who (st1\<lparr>ctx := c\<rparr>) of
             Ok u st2 \<Rightarrow>
               Ok (score res = 0) (emit [PrinterProgress (status_line ms permuter res c)] st2)
           | Raise e st2 \<Rightarrow> Raise e st2
           | Hangs st2 \<Rightarrow> Hangs st2))"

definition post_score :: "ops \<Rightarrow> nat \<Rightarrow> eval_result \<Rightarrow> string option \<Rightarrow> state \<Rightarrow> bool result" where
  "post_score ms idx result who st =
     (case result of
        EvalError exc_str seed \<Rightarrow> post_score_error (permuters (ctx st) ! idx) exc_str seed who st
      | Candidate res \<Rightarrow> post_score_candidate ms idx res who st)"

subsection \<open>\<open>multiprocess_worker\<close>\<close>

text \<open>
  The task queue as the worker meets it: for each \<open>get\<close>, either an item is there at once
  (\<open>Ready\<close>), or the queue is empty and an item comes later (\<open>Later\<close>), or the queue is
  empty and nothing comes (\<open>Never\<close>), or Ctrl+C arrives (\<open>CtrlC\<close>).
  \<open>multiprocessing.Queue.get(block)\<close> is the Python library's: it returns an item that is
  there; on an empty queue it raises \<open>queue.Empty\<close> when \<open>block\<close> is false and waits for
  an item when \<open>block\<close> is true. An item is any Python value, so it may be \<open>None\<close>, which
  the worker tests for, although no task is \<open>None\<close>.
\<close>

datatype 'a avail = Ready 'a | Later 'a | Never | CtrlC

datatype 'a got = Got 'a | RaisesEmpty | WaitsForever | RaisesKeyboardInterrupt

definition queue_get :: "bool \<Rightarrow> 'a avail \<Rightarrow> 'a got" where
  "queue_get block a =
     (case a of
        Ready x \<Rightarrow> Got x
      | Later x \<Rightarrow> if block then Got x else RaisesEmpty
      | Never \<Rightarrow> if block then WaitsForever else RaisesEmpty
      | CtrlC \<Rightarrow> RaisesKeyboardInterrupt)"

text \<open>How the worker ends: it returns after \<open>Finished\<close>, it returns from the handler of
  \<open>KeyboardInterrupt\<close>, an exception leaves it, or it waits on the queue forever.\<close>

datatype worker_end = Returned | Cancelled | Died exn | Waits

type_synonym output_queue = "(feedback \<times> string option) list"

text \<open>The \<open>while True\<close> loop, with \<open>should_block\<close> and what has been put on
  \<open>output_queue\<close>. When the list of meetings is used up, nothing more comes.\<close>

fun worker_loop ::
  "ops \<Rightarrow> permuter list \<Rightarrow> bool \<Rightarrow> task option avail list \<Rightarrow> output_queue \<Rightarrow>
     worker_end \<times> output_queue \<times> permuter list" where
  "worker_loop ms perms should_block [] out =
     (if should_block then (Waits, out, perms) else (Died QueueEmpty, out, perms))"
| "worker_loop ms perms should_block (a # rest) out =
     (case queue_get should_block a of
        RaisesEmpty \<Rightarrow> (Died QueueEmpty, out, perms)
      | WaitsForever \<Rightarrow> (Waits, out, perms)
      | RaisesKeyboardInterrupt \<Rightarrow> (Cancelled, out, perms)
      | Got None \<Rightarrow> worker_loop ms perms True rest (out @ [(FbNeedMoreWork, None)])
      | Got (Some (TaskFinished reason)) \<Rightarrow> (Returned, out @ [(FbFinished reason, None)], perms)
      | Got (Some (TaskWork permuter_index seed)) \<Rightarrow>
          (case py_index (length perms) permuter_index of
             Inl e \<Rightarrow> (Died e, out, perms)
           | Inr k \<Rightarrow>
               let (result, permuter1) = try_eval_candidate ms (perms ! k) seed;
                   permuter2 = (case result of
                                  Candidate res \<Rightarrow>
                                    if should_output ms permuter1 res
                                    then record_result ms permuter1 res else permuter1
                                | EvalError exc_str sd \<Rightarrow> permuter1)
               in worker_loop ms (perms[k := permuter2]) False rest
                    (out @ [(FbWorkDone permuter_index result, None)])))"

definition multiprocess_worker ::
  "ops \<Rightarrow> permuter list \<Rightarrow> task option avail list \<Rightarrow> worker_end \<times> output_queue \<times> permuter list" where
  "multiprocess_worker ms perms input_queue = worker_loop ms perms False input_queue []"

subsection \<open>The main loop of \<open>run_inner\<close>\<close>

text \<open>
  What the coordinator meets in one iteration of a loop: the time \<open>heartbeat\<close> reads, and
  then either the item \<open>feedback_queue.get()\<close> returns, or Ctrl+C.
\<close>

datatype arrival = Arrival real feedback "string option" | Interrupt real

definition heartbeat :: "real \<Rightarrow> state \<Rightarrow> state" where
  "heartbeat t st = st\<lparr>last_time := t\<rparr>"

definition process_finish :: "string option \<Rightarrow> string option \<Rightarrow> state \<Rightarrow> state" where
  "process_finish reason who st =
     (let st1 = (case reason of
                   None \<Rightarrow> st
                 | Some r \<Rightarrow> if r = [] then st
                            else emit [PrinterPrint r None who (Some True) None] st)
      in st1\<lparr>active_workers := active_workers st1 - 1\<rparr>)"

definition process_result :: "ops \<Rightarrow> int \<Rightarrow> eval_result \<Rightarrow> string option \<Rightarrow> state \<Rightarrow> bool result" where
  "process_result ms perm_index result who st =
     (case py_index (length (permuters (ctx st))) perm_index of
        Inl e \<Rightarrow> Raise e st
      | Inr k \<Rightarrow> post_score ms k result who st)"

text \<open>How one iteration of a loop ends.\<close>

datatype step = Continue state | Break state | Fail exn state | Stuck state

text \<open>The end of the first loop's body: the next task goes on the queue, or the loop is
  left when there is none.\<close>

definition put_task :: "state \<Rightarrow> step" where
  "put_task st =
     (case cycle_next (fst (perm_seed_iter st)) (snd (perm_seed_iter st)) of
        None \<Rightarrow> Break st
      | Some ((idx, seed), gen) \<Rightarrow>
          Continue (st\<lparr>perm_seed_iter := gen, task_queue := task_queue st @ [TaskWork (int idx) seed]\<rparr>))"

definition feed_step :: "ops \<Rightarrow> arrival \<Rightarrow> state \<Rightarrow> step" where
  "feed_step ms a st =
     (case a of
        Interrupt t \<Rightarrow> Fail KeyboardInterrupt (heartbeat t st)
      | Arrival t fb who \<Rightarrow>
          let st1 = heartbeat t st in
          (case fb of
             FbFinished reason \<Rightarrow> Continue (process_finish reason who st1)
           | FbMessage text \<Rightarrow> put_task (emit [PrinterPrint text None who (Some True) None] st1)
           | FbNeedMoreWork \<Rightarrow> put_task st1
           | FbWorkDone perm_index result \<Rightarrow>
               (case process_result ms perm_index result who st1 of
                  Raise e st2 \<Rightarrow> Fail e st2
                | Hangs st2 \<Rightarrow> Stuck st2
                | Ok zero st2 \<Rightarrow>
                    if zero then
                      (let st3 = st2\<lparr>found_zero := True\<rparr> in
                       if stop_on_zero (options (ctx st3)) then Break st3 else put_task st3)
                    else put_task st2)))"

fun feed_loop :: "ops \<Rightarrow> arrival list \<Rightarrow> state \<Rightarrow> arrival list result" where
  "feed_loop ms [] st = (if active_workers st > 0 then Hangs st else Ok [] st)"
| "feed_loop ms (a # rest) st =
     (if active_workers st > 0 then
        (case feed_step ms a st of
           Continue st1 \<Rightarrow> feed_loop ms rest st1
         | Break st1 \<Rightarrow> Ok rest st1
         | Fail e st1 \<Rightarrow> Raise e st1
         | Stuck st1 \<Rightarrow> Hangs st1)
      else Ok (a # rest) st)"

text \<open>\<open>for i in range(active_workers): task_queue.put(Finished())\<close>\<close>

definition signal_workers :: "state \<Rightarrow> state" where
  "signal_workers st =
     st\<lparr>task_queue := task_queue st @ replicate (nat (active_workers st)) (TaskFinished None)\<rparr>"

definition await_step :: "ops \<Rightarrow> arrival \<Rightarrow> state \<Rightarrow> step" where
  "await_step ms a st =
     (case a of
        Interrupt t \<Rightarrow> Fail KeyboardInterrupt (heartbeat t st)
      | Arrival t fb who \<Rightarrow>
          let st1 = heartbeat t st in
          (case fb of
             FbFinished reason \<Rightarrow> Continue (process_finish reason who st1)
           | FbMessage text \<Rightarrow> Continue (emit [PrinterPrint text None who (Some True) None] st1)
           | FbNeedMoreWork \<Rightarrow> Continue st1
           | FbWorkDone perm_index result \<Rightarrow>
               if \<not> (stop_on_zero (options (ctx st1)) \<and> found_zero st1) then
                 (case process_result ms perm_index result who st1 of
                    Raise e st2 \<Rightarrow> Fail e st2
                  | Hangs st2 \<Rightarrow> Stuck st2
                  | Ok zero st2 \<Rightarrow> Continue (if zero then st2\<lparr>found_zero := True\<rparr> else st2))
               else Continue st1))"

fun await_loop :: "ops \<Rightarrow> arrival list \<Rightarrow> state \<Rightarrow> arrival list result" where
  "await_loop ms [] st = (if active_workers st > 0 then Hangs st else Ok [] st)"
| "await_loop ms (a # rest) st =
     (if active_workers st > 0 then
        (case await_step ms a st of
           Continue st1 \<Rightarrow> await_loop ms rest st1
         | Break st1 \<Rightarrow> Ok rest st1
         | Fail e st1 \<Rightarrow> Raise e st1
         | Stuck st1 \<Rightarrow> Hangs st1)
      else Ok (a # rest) st)"

text \<open>
  \<open>run_inner\<close> from \<open>found_zero = False\<close> on, in the branch with workers: the two loops
  with the signal to stop between them. What comes before (loading the directories,
  starting the workers) has set up the state; the branch for a single thread without
  network is not modelled.
\<close>

definition run_workers :: "ops \<Rightarrow> arrival list \<Rightarrow> state \<Rightarrow> arrival list result" where
  "run_workers ms arrivals st =
     (case feed_loop ms arrivals st of
        Ok rest st1 \<Rightarrow> await_loop ms rest (signal_workers st1)
      | Raise e st1 \<Rightarrow> Raise e st1
      | Hangs st1 \<Rightarrow> Hangs st1)"

definition run_inner :: "ops \<Rightarrow> arrival list \<Rightarrow> state \<Rightarrow> int list result" where
  "run_inner ms arrivals st =
     (if active_workers st = 0 then
        Raise (SystemExit 1)
          (emit [Print ''No remote servers available. Exiting.''] (st\<lparr>found_zero := False\<rparr>))
      else
        (case run_workers ms arrivals (st\<lparr>found_zero := False\<rparr>) of
           Ok rest st1 \<Rightarrow>
             Ok (map best_score (permuters (ctx st1)))
                (if found_zero st1
                 then emit [Print (CHR 0x0A # ''Found zero score! Exiting.'')] st1 else st1)
         | Raise e st1 \<Rightarrow> Raise e st1
         | Hangs st1 \<Rightarrow> Hangs st1))"

text \<open>\<open>run\<close>: \<open>t0\<close> is the time read on entry, \<open>now\<close> the time read in the handler of
  \<open>KeyboardInterrupt\<close>.\<close>

definition run :: "ops \<Rightarrow> real \<Rightarrow> arrival list \<Rightarrow> real \<Rightarrow> state \<Rightarrow> int list result" where
  "run ms t0 arrivals now st =
     (case run_inner ms arrivals (st\<lparr>last_time := t0\<rparr>) of
        Raise e st1 \<Rightarrow>
          if e = KeyboardInterrupt then
            (if now - last_time st1 > 5 then
               Raise (SystemExit 1) (emit [Print [], Print ''Aborting stuck process.'', PrintExc] st1)
             else Raise (SystemExit 0) (emit [Print [], Print ''Exiting.''] st1))
          else Raise e st1
      | Ok v st1 \<Rightarrow> Ok v st1
      | Hangs st1 \<Rightarrow> Hangs st1)"


text \<open>Concrete values for the examples.\<close>

definition simple_ops :: ops where
  "simple_ops = \<lparr>
     should_output = (\<lambda>p r. score r \<le> best_score p),
     record_result = (\<lambda>p r. p\<lparr>best_score := min (best_score p) (score r)\<rparr>),
     diff = (\<lambda>p src. ''--- base''),
     try_eval_candidate =
       (\<lambda>p seed. (Candidate \<lparr>score = seed, hash = ''h'', source = Some ''int y;'', profiler = []\<rparr>, p)),
     add_stat = (\<lambda>pr k v. pr @ [(k, v)]),
     get_str_stats = (\<lambda>pr. ''stats'')\<rparr>"

definition func_permuter :: permuter where
  "func_permuter = \<lparr>dir = ''d'', unique_name = ''func'', best_score = 100, base_score = 100,
     base_source = ''int x;'', penalty_inf = 10000000\<rparr>"

definition some_options :: options where
  "some_options = \<lparr>show_timings = False, print_diffs = False, abort_exceptions = False,
     stop_on_zero = False\<rparr>"

definition start_state :: state where
  "start_state = \<lparr>
     ctx = \<lparr>options = some_options, iteration = 0, errors = 0, overall_profiler = [],
            permuters = [func_permuter]\<rparr>,
     events = [],
     files = [(''d'', Directory), (''d/output-5-1'', Directory), (''d/output-5-2'', Directory)],
     active_workers = 2, found_zero = False,
     perm_seed_iter = cycle_seeds [iter_of_list [1, 2, 3]],
     task_queue = [], last_time = 0\<rparr>"

definition five :: candidate_result where
  "five = \<lparr>score = 5, hash = ''h'', source = Some ''int y;'', profiler = []\<rparr>"

text \<open>The local variables of the loops and the options are the same in two states.\<close>

definition same_locals :: "state \<Rightarrow> state \<Rightarrow> bool" where
  "same_locals st st' \<longleftrightarrow>
     active_workers st' = active_workers st \<and> found_zero st' = found_zero st \<and>
     task_queue st' = task_queue st \<and> last_time st' = last_time st \<and>
     perm_seed_iter st' = perm_seed_iter st \<and> options (ctx st') = options (ctx st)"












definition raised :: "'a result \<Rightarrow> exn option" where
  "raised r = (case r of Ok v st \<Rightarrow> None | Raise e st \<Rightarrow> Some e | Hangs st \<Rightarrow> None)"

section \<open>Properties\<close>

subsection \<open>Decimal rendering is injective\<close>

lemma digit_char_inj: "a < 10 \<Longrightarrow> b < 10 \<Longrightarrow> digit_char a = digit_char b \<Longrightarrow> a = b"
proof -
  assume a: "a < 10" and b: "b < 10" and e: "digit_char a = digit_char b"
  have d: "distinct ''0123456789''" by simp
  have "''0123456789'' ! a = ''0123456789'' ! b" using e a b by (simp add: digit_char_def)
  moreover have "a < length ''0123456789''" "b < length ''0123456789''" using a b by simp_all
  ultimately show "a = b" using nth_eq_iff_index_eq[OF d] by blast
qed

lemma digit_char_in: "digit_char d \<in> set ''0123456789''"
  unfolding digit_char_def by (rule nth_mem) simp

lemma digit_char_not_minus: "digit_char d \<noteq> CHR ''-''"
  using digit_char_in[of d] by auto

lemma str_nat_nonempty: "str_nat n \<noteq> []"
  by (subst str_nat.simps) simp

lemma str_nat_hd: "hd (str_nat n) \<noteq> CHR ''-''"
proof (induction n rule: str_nat.induct)
  case (1 n)
  show ?case
  proof (cases "n < 10")
    case True
    then show ?thesis by (subst str_nat.simps) (simp add: digit_char_not_minus)
  next
    case False
    with 1 show ?thesis
      by (subst str_nat.simps) (simp add: str_nat_nonempty)
  qed
qed

lemma str_nat_inj: "str_nat n = str_nat m \<Longrightarrow> n = m"
proof (induction n arbitrary: m rule: str_nat.induct)
  case (1 n)
  show ?case
  proof (cases "n < 10")
    case n: True
    show ?thesis
    proof (cases "m < 10")
      case True
      with n 1(2) show ?thesis
        by (subst (asm) str_nat.simps, subst (asm) (2) str_nat.simps) (simp add: digit_char_inj)
    next
      case False
      have "str_nat m = str_nat (m div 10) @ [digit_char (m mod 10)]"
        using False by (subst str_nat.simps) simp
      moreover have "str_nat n = [digit_char n]"
        using n by (subst str_nat.simps) simp
      ultimately show ?thesis using 1(2) str_nat_nonempty[of "m div 10"] by simp
    qed
  next
    case n: False
    have en: "str_nat n = str_nat (n div 10) @ [digit_char (n mod 10)]"
      using n by (subst str_nat.simps) simp
    show ?thesis
    proof (cases "m < 10")
      case True
      then have "str_nat m = [digit_char m]" by (subst str_nat.simps) simp
      with en 1(2) str_nat_nonempty[of "n div 10"] show ?thesis by simp
    next
      case False
      then have em: "str_nat m = str_nat (m div 10) @ [digit_char (m mod 10)]"
        by (subst str_nat.simps) simp
      from en em 1(2) have a: "str_nat (n div 10) = str_nat (m div 10)"
        and b: "digit_char (n mod 10) = digit_char (m mod 10)" by simp_all
      from 1(1)[OF n a] have "n div 10 = m div 10" .
      moreover from b have "n mod 10 = m mod 10" by (intro digit_char_inj) simp_all
      ultimately show ?thesis by (metis div_mult_mod_eq)
    qed
  qed
qed

lemma str_int_inj: "str_int a = str_int b \<Longrightarrow> a = b"
proof -
  assume e: "str_int a = str_int b"
  have hd_neg: "\<And>i. i < 0 \<Longrightarrow> hd (str_int i) = CHR ''-''" by (simp add: str_int_def)
  have hd_pos: "\<And>i. \<not> i < 0 \<Longrightarrow> hd (str_int i) \<noteq> CHR ''-''" by (simp add: str_int_def str_nat_hd)
  have same: "a < 0 \<longleftrightarrow> b < 0"
  proof
    assume "a < 0"
    then have "hd (str_int b) = CHR ''-''" using hd_neg[of a] e by simp
    then show "b < 0" using hd_pos[of b] by blast
  next
    assume "b < 0"
    then have "hd (str_int a) = CHR ''-''" using hd_neg[of b] e by simp
    then show "a < 0" using hd_pos[of a] by blast
  qed
  show ?thesis
  proof (cases "a < 0")
    case True
    with same e have "str_nat (nat (- a)) = str_nat (nat (- b))" by (simp add: str_int_def)
    then have "nat (- a) = nat (- b)" by (rule str_nat_inj)
    moreover have "b < 0" using True same by blast
    ultimately show ?thesis using True by linarith
  next
    case False
    with same e have "str_nat (nat a) = str_nat (nat b)" by (simp add: str_int_def)
    then have "nat a = nat b" by (rule str_nat_inj)
    moreover have "\<not> b < 0" using False same by blast
    ultimately show ?thesis using False by linarith
  qed
qed

subsection \<open>The server\<close>

lemma told_add_append:
  assumes t: "told_add ident fs" and g: "\<forall>f \<in> set gs. \<not> is_remove ident f"
  shows "told_add ident (fs @ gs)"
proof -
  from t obtain i where i: "i < length fs" "is_add ident (fs ! i)" "i + 2 < length fs"
      "is_raw (fs ! (i + 1))" "is_raw (fs ! (i + 2))"
      and nr: "\<forall>j \<in> {i<..<length fs}. \<not> is_remove ident (fs ! j)"
    unfolding told_add_def by auto
  have "\<not> is_remove ident ((fs @ gs) ! j)" if j: "j \<in> {i<..<length (fs @ gs)}" for j
  proof (cases "j < length fs")
    case True
    then show ?thesis using nr j by (simp add: nth_append)
  next
    case False
    then have "(fs @ gs) ! j = gs ! (j - length fs)" by (simp add: nth_append)
    moreover have "j - length fs < length gs" using j False by auto
    ultimately show ?thesis using g by (metis nth_mem)
  qed
  then show ?thesis unfolding told_add_def using i
    by (intro bexI[of _ i]) (auto simp: nth_append)
qed

lemma told_add_new:
  assumes a: "is_add ident a"
  shows "told_add ident (fs @ [a, SendRaw x, SendRaw y])"
proof -
  let ?n = "length fs"
  let ?l = "fs @ [a, SendRaw x, SendRaw y]"
  have "\<not> is_remove ident (?l ! j)" if j: "j \<in> {?n<..<length ?l}" for j
  proof -
    from j have "j = ?n + 1 \<or> j = ?n + 2" by auto
    then show ?thesis by (auto simp: nth_append is_remove_def)
  qed
  moreover have "is_add ident (?l ! ?n)" using a by (simp add: nth_append)
  moreover have "is_raw (?l ! (?n + 1))" "is_raw (?l ! (?n + 2))"
    by (simp_all add: nth_append is_raw_def)
  ultimately show ?thesis unfolding told_add_def
    by (intro bexI[of _ ?n]) auto
qed

lemma send_controller_fields [simp]:
  "active (send_controller m s) = active s"
  "evaluator_port (send_controller m s) = evaluator_port s"
  "io_queue (send_controller m s) = io_queue s"
  "net_thread (send_controller m s) = net_thread s"
  "controller_queue (send_controller m s) =
     controller_queue s @ (if net_thread s = None then [] else [m])"
  by (simp_all add: send_controller_def split: option.splits)

lemma send_io_fields [simp]:
  "active (send_io h m s) = active s"
  "evaluator_port (send_io h m s) = evaluator_port s"
  "io_queue (send_io h m s) = io_queue s @ [IoFor h m]"
  "net_thread (send_io h m s) = net_thread s"
  "controller_queue (send_io h m s) = controller_queue s"
  by (simp_all add: send_io_def)

lemma send_io_global_fields [simp]:
  "active (send_io_global m s) = active s"
  "evaluator_port (send_io_global m s) = evaluator_port s"
  by (simp_all add: send_io_global_def)

lemma send_json_fields [simp]:
  "active (send_json d s) = active s"
  "evaluator_port (send_json d s) = evaluator_port s @ [SendJson d]"
  "io_queue (send_json d s) = io_queue s"
  "net_thread (send_json d s) = net_thread s"
  "controller_queue (send_json d s) = controller_queue s"
  by (simp_all add: send_json_def)

lemma send_raw_fields [simp]:
  "active (send_raw b s) = active s"
  "evaluator_port (send_raw b s) = evaluator_port s @ [SendRaw b]"
  by (simp_all add: send_raw_def)

lemma stop_net_thread_fields [simp]:
  "active (stop_net_thread s) = active s"
  "evaluator_port (stop_net_thread s) = evaluator_port s"
  by (simp_all add: stop_net_thread_def split: option.splits)

lemma remove_handle_Inr:
  "remove_handle h s = Inr s' \<Longrightarrow>
     active s' = removeAll h (active s) \<and>
     evaluator_port s' = evaluator_port s @ [SendJson [(''type'', JStr ''remove''), (''id'', JStr (str_int h))]] \<and>
     io_queue s' = io_queue s \<and> controller_queue s' = controller_queue s \<and> net_thread s' = net_thread s"
  by (auto simp: remove_handle_def Let_def split: if_splits)

lemma remove_handle_active: "h \<in> set (active s) \<Longrightarrow> \<exists>s'. remove_handle h s = Inr s'"
  by (simp add: remove_handle_def Let_def)

lemma is_remove_remove [simp]:
  "is_remove (str_int h') (SendJson [(''type'', JStr ''remove''), (''id'', JStr (str_int h))]) \<longleftrightarrow> h' = h"
  by (auto simp: is_remove_def dict_get_def dest: str_int_inj)

lemma is_remove_work [simp]:
  "\<not> is_remove ident (SendJson [(''type'', JStr ''work''), (''id'', i), (''seed'', sd)])"
  by (simp add: is_remove_def dict_get_def)

lemma add_frame_get:
  "dict_get (dict_merge [(''type'', JStr ''add''), (''id'', JStr ident)] (permuter_data_to_json perm)) ''type''
     = Some (JStr ''add'')"
  "dict_get (dict_merge [(''type'', JStr ''add''), (''id'', JStr ident)] (permuter_data_to_json perm)) ''id''
     = Some (JStr ident)"
  by (simp_all add: permuter_data_to_json_def dict_get_def)

lemma is_add_add [simp]:
  "is_add ident (SendJson (dict_merge [(''type'', JStr ''add''), (''id'', JStr ident)] (permuter_data_to_json perm)))"
  by (simp add: is_add_def add_frame_get)

lemma is_remove_add [simp]:
  "\<not> is_remove ident' (SendJson (dict_merge [(''type'', JStr ''add''), (''id'', JStr ident)] (permuter_data_to_json perm)))"
  by (simp add: is_remove_def add_frame_get)

lemma is_remove_raw [simp]: "\<not> is_remove ident (SendRaw b)"
  by (simp add: is_remove_def)

lemma eka_remove_handle:
  assumes "evaluator_knows_active s" "remove_handle h s = Inr s'"
  shows "evaluator_knows_active s'"
proof -
  note r = remove_handle_Inr[OF assms(2)]
  show ?thesis unfolding evaluator_knows_active_def
  proof
    fix h' assume "h' \<in> set (active s')"
    with r have h': "h' \<in> set (active s)" "h' \<noteq> h" by auto
    with assms(1) have "told_add (str_int h') (evaluator_port s)"
      by (simp add: evaluator_knows_active_def)
    then show "told_add (str_int h') (evaluator_port s')"
      using r h' by (auto intro!: told_add_append)
  qed
qed

lemma eka_remove_all:
  "evaluator_knows_active s \<Longrightarrow> remove_all hs s = Inr s' \<Longrightarrow> evaluator_knows_active s'"
proof (induction hs arbitrary: s)
  case Nil
  then show ?case by simp
next
  case (Cons h hs)
  then show ?case by (auto split: sum.splits dest: eka_remove_handle)
qed

lemma eka_same:
  "evaluator_knows_active s \<Longrightarrow> set (active s') \<subseteq> set (active s) \<Longrightarrow>
   evaluator_port s' = evaluator_port s \<Longrightarrow> evaluator_knows_active s'"
  by (auto simp: evaluator_knows_active_def)

lemma eka_add:
  assumes "evaluator_knows_active s"
  shows "evaluator_knows_active (send_io h io (send_permuter (str_int h) perm (s\<lparr>active := set_add (active s) h\<rparr>)))"
  unfolding evaluator_knows_active_def
proof
  let ?a = "SendJson (dict_merge [(''type'', JStr ''add''), (''id'', JStr (str_int h))] (permuter_data_to_json perm))"
  let ?s' = "send_io h io (send_permuter (str_int h) perm (s\<lparr>active := set_add (active s) h\<rparr>))"
  have ev: "evaluator_port ?s' = evaluator_port s @ [?a, SendRaw (pd_source perm), SendRaw (target_o_bin perm)]"
    by (simp add: send_permuter_def)
  fix h' assume "h' \<in> set (active ?s')"
  then have "h' = h \<or> h' \<in> set (active s)"
    by (auto simp: send_permuter_def set_add_def split: if_splits)
  then show "told_add (str_int h') (evaluator_port ?s')"
  proof
    assume "h' = h"
    then show ?thesis unfolding ev by (simp add: told_add_new)
  next
    assume "h' \<in> set (active s)"
    with assms have "told_add (str_int h') (evaluator_port s)"
      by (simp add: evaluator_knows_active_def)
    then show ?thesis unfolding ev by (rule told_add_append) simp
  qed
qed

lemma eka_handle_message:
  assumes "evaluator_knows_active s" "handle_message jp msg s = Inr s'"
  shows "evaluator_knows_active s'"
proof (cases msg)
  case (AddPermuter h cl perm)
  with assms show ?thesis by (auto split: if_splits intro: eka_add)
next
  case (RemovePermuter h)
  with assms show ?thesis
    by (auto split: if_splits sum.splits dest!: eka_remove_handle[OF assms(1)] elim: eka_same)
next
  case (Work h seed)
  with assms show ?thesis
    by (auto split: if_splits simp: need_work_def evaluator_knows_active_def intro!: told_add_append)
next
  case (ImmediateDisconnect h cl r)
  with assms show ?thesis by (auto split: if_splits elim: eka_same)
next
  case (Disconnect h)
  with assms show ?thesis
    by (auto split: if_splits sum.splits dest!: eka_remove_handle[OF assms(1)] elim: eka_same)
next
  case (PermInitFail pid err)
  with assms show ?thesis
    by (auto split: if_splits sum.splits simp: need_work_def elim!: eka_same)
next
  case (PermInitSuccess pid bs bh t)
  with assms show ?thesis
    by (auto split: if_splits sum.splits simp: need_work_def elim!: eka_same)
next
  case (WorkDone pid obj t cs)
  with assms show ?thesis
    by (auto split: if_splits sum.splits simp: need_work_def Let_def elim!: eka_same)
next
  case NeedMoreWork
  with assms show ?thesis by (auto simp: need_work_def elim: eka_same)
next
  case (NetThreadDisconnected t)
  show ?thesis
  proof (cases "net_thread s = None \<or> net_thread s \<noteq> Some t")
    case True
    with assms NetThreadDisconnected show ?thesis by simp
  next
    case False
    with assms(2) NetThreadDisconnected obtain s1 where r: "remove_all (active s) s = Inr s1"
      and s': "s' = stop_net_thread (s1\<lparr>stdout := stdout s1 @ [''disconnected from permuter@home'']\<rparr>)"
      by (auto split: sum.splits)
    from eka_remove_all[OF assms(1) r] have "evaluator_knows_active s1" .
    then show ?thesis unfolding s' by (rule eka_same) simp_all
  qed
next
  case Heartbeat
  with assms show ?thesis by simp
next
  case Shutdown
  with assms show ?thesis by simp
qed

lemma eka_main_loop:
  "evaluator_knows_active s \<Longrightarrow> main_loop jp msgs s = Inr s' \<Longrightarrow> evaluator_knows_active s'"
proof (induction msgs arbitrary: s)
  case Nil
  then show ?case by simp
next
  case (Cons m msgs)
  obtain msg qe where m: "m = (msg, qe)" by (cases m)
  show ?case
  proof (cases "msg = Shutdown")
    case True
    with Cons m show ?thesis by simp
  next
    case False
    with Cons.prems m obtain s1 where h: "handle_message jp msg s = Inr s1"
      and r: "main_loop jp msgs (if active s1 = [] \<and> qe then send_io_global IoWillSleep s1 else s1) = Inr s'"
      by (auto split: sum.splits)
    from eka_handle_message[OF Cons.prems(1) h]
    have "evaluator_knows_active (if active s1 = [] \<and> qe then send_io_global IoWillSleep s1 else s1)"
      by (auto elim: eka_same)
    from Cons.IH[OF this r] show ?thesis .
  qed
qed

lemma str_int_5: "str_int 5 = ''5''"
  by (simp add: str_int_def str_nat.simps digit_char_def)

text \<open>
  C8. In every state the server reaches from one with no active handle by handling any
  sequence of messages, a handle is active only if the evaluator port has been sent an
  \<open>add\<close> message for it, with its two raw frames, and no \<open>remove\<close> message for it since.
\<close>

theorem active_only_if_added:
  assumes "active s0 = []" and "main_loop jp msgs s0 = Inr s" and "h \<in> set (active s)"
  shows "told_add (str_int h) (evaluator_port s)"
proof -
  from assms(1) have "evaluator_knows_active s0" by (simp add: evaluator_knows_active_def)
  from eka_main_loop[OF this assms(2)] assms(3) show ?thesis
    by (simp add: evaluator_knows_active_def)
qed

theorem active_only_if_added_witness:
  "active started = [] \<and>
   main_loop json_prop_int [(AddPermuter 5 alice func_data, False), (Work 5 7, False)] started = Inr working \<and>
   5 \<in> set (active working) \<and> told_add (str_int 5) (evaluator_port working)"
proof -
  have a: "active started = []" by (simp add: started_def)
  have b: "main_loop json_prop_int [(AddPermuter 5 alice func_data, False), (Work 5 7, False)] started
             = Inr working"
    by (simp add: started_def working_def send_io_def send_permuter_def send_raw_def send_json_def
        set_add_def permuter_data_to_json_def func_data_def str_int_5)
  have c: "5 \<in> set (active working)" by (simp add: working_def)
  from active_only_if_added[OF a b c] a b c show ?thesis by simp
qed

text \<open>
  C5. \<open>RemovePermuter\<close> for a handle that is not active returns with the state as it was,
  so nothing is sent; \<open>AddPermuter\<close> for a handle that is active raises.
\<close>

theorem remove_ignored_add_raises:
  "(h \<notin> set (active s) \<longrightarrow> handle_message jp (RemovePermuter h) s = Inr s) \<and>
   (h' \<in> set (active s) \<longrightarrow> handle_message jp (AddPermuter h' cl perm) s = Inl RepeatedAddPermuter)"
  by simp

theorem remove_ignored_add_raises_witness:
  "7 \<notin> set (active working) \<and>
   handle_message json_prop_int (RemovePermuter 7) working = Inr working \<and>
   5 \<in> set (active working) \<and>
   handle_message json_prop_int (AddPermuter 5 alice func_data) working = Inl RepeatedAddPermuter"
proof -
  have a: "7 \<notin> set (active working)" and b: "5 \<in> set (active working)"
    by (simp_all add: working_def)
  from remove_ignored_add_raises[of 7 working json_prop_int 5 alice func_data] a b
  show ?thesis by simp
qed

text \<open>
  C4, as the code has it. For a \<open>Work\<close> message whose handle is not active, the server
  puts exactly one \<open>OutputNeedMoreWork\<close> on the controller queue of its net thread when
  one is attached, and nothing when none is; in both cases nothing is written to the
  evaluator port, and the active set and the I/O queue stay as they were.
\<close>

theorem work_for_inactive_handle:
  assumes "h \<notin> set (active s)"
  shows "map_sum id controller_queue (handle_message jp (Work h seed) s) =
           Inr (controller_queue s @ (if net_thread s = None then [] else [OutputNeedMoreWork])) \<and>
         map_sum id evaluator_port (handle_message jp (Work h seed) s) = Inr (evaluator_port s) \<and>
         map_sum id active (handle_message jp (Work h seed) s) = Inr (active s) \<and>
         map_sum id io_queue (handle_message jp (Work h seed) s) = Inr (io_queue s)"
  using assms by (simp add: need_work_def)

theorem work_for_inactive_handle_witness:
  "5 \<notin> set (active started) \<and>
   map_sum id controller_queue (handle_message json_prop_int (Work 5 1) started) = Inr [OutputNeedMoreWork] \<and>
   map_sum id evaluator_port (handle_message json_prop_int (Work 5 1) started) = Inr []"
proof -
  have a: "5 \<notin> set (active started)" by (simp add: started_def)
  from work_for_inactive_handle[OF a, of json_prop_int 1] a show ?thesis
    by (simp add: started_def)
qed

text \<open>
  The claim C4 as stated fails once the net thread has gone: the server that has handled
  \<open>NetThreadDisconnected\<close> answers a \<open>Work\<close> for an inactive handle with nothing at all.
\<close>

theorem work_for_inactive_handle_counterexample:
  "handle_message json_prop_int (NetThreadDisconnected 0) started = Inr disconnected \<and>
   5 \<notin> set (active disconnected) \<and>
   handle_message json_prop_int (Work 5 1) disconnected = Inr disconnected \<and>
   OutputNeedMoreWork \<notin> set (controller_queue disconnected)"
  by (simp add: started_def disconnected_def stop_net_thread_def need_work_def send_controller_def)

text \<open>
  C10, as the code has it. For \<open>PermInitFail\<close> whose id parses to an active handle, the
  server takes the handle out of the active set, puts \<open>IoDisconnect "failed to compile"\<close>
  on the I/O queue, puts \<open>OutputInitFail\<close> on the controller queue of its net thread when
  one is attached (nothing when none is), and writes nothing to the evaluator port;
  \<open>RemovePermuter\<close> and \<open>Disconnect\<close> for the same handle write a \<open>remove\<close> message to it.
\<close>

theorem init_fail_leaves_evaluator:
  assumes "py_int perm_id = Inr h" and "h \<in> set (active s)"
  shows "map_sum id active (handle_message jp (PermInitFail perm_id err) s) = Inr (removeAll h (active s)) \<and>
         map_sum id io_queue (handle_message jp (PermInitFail perm_id err) s) =
           Inr (io_queue s @ [IoFor h (IoDisconnect ''failed to compile'')]) \<and>
         map_sum id controller_queue (handle_message jp (PermInitFail perm_id err) s) =
           Inr (controller_queue s @ (if net_thread s = None then [] else [OutputInitFail h err])) \<and>
         map_sum id evaluator_port (handle_message jp (PermInitFail perm_id err) s) = Inr (evaluator_port s) \<and>
         map_sum id evaluator_port (handle_message jp (RemovePermuter h) s) =
           Inr (evaluator_port s @ [SendJson [(''type'', JStr ''remove''), (''id'', JStr (str_int h))]]) \<and>
         map_sum id evaluator_port (handle_message jp (Disconnect h) s) =
           Inr (evaluator_port s @ [SendJson [(''type'', JStr ''remove''), (''id'', JStr (str_int h))]])"
  using assms by (simp add: remove_handle_def)

theorem init_fail_leaves_evaluator_witness:
  "py_int ''5'' = Inr 5 \<and> 5 \<in> set (active working) \<and>
   map_sum id active (handle_message json_prop_int (PermInitFail ''5'' ''boom'') working) = Inr [] \<and>
   map_sum id controller_queue (handle_message json_prop_int (PermInitFail ''5'' ''boom'') working) =
     Inr [OutputInitFail 5 ''boom''] \<and>
   map_sum id evaluator_port (handle_message json_prop_int (PermInitFail ''5'' ''boom'') working) =
     Inr (evaluator_port working)"
proof -
  have a: "py_int ''5'' = Inr 5"
    by (simp add: py_int_def strip_def is_space_def is_digit_def digit_val_def)
  have b: "5 \<in> set (active working)" by (simp add: working_def)
  from init_fail_leaves_evaluator[OF a b, of json_prop_int "''boom''"] a b show ?thesis
    by (simp add: working_def)
qed

text \<open>
  The claim C10 as stated fails once the net thread has gone: a permuter added after
  \<open>NetThreadDisconnected\<close> is active, and its \<open>PermInitFail\<close> puts no \<open>OutputInitFail\<close>
  anywhere.
\<close>

theorem init_fail_counterexample:
  "map_sum id active (main_loop json_prop_int
      [(NetThreadDisconnected 0, False), (AddPermuter 5 alice func_data, False)] started) = Inr [5] \<and>
   py_int ''5'' = Inr 5 \<and>
   map_sum id controller_queue (main_loop json_prop_int
      [(NetThreadDisconnected 0, False), (AddPermuter 5 alice func_data, False),
       (PermInitFail ''5'' ''boom'', False)] started) = Inr [OutputShutdown]"
  by (simp add: started_def stop_net_thread_def send_io_def send_permuter_def send_raw_def
      send_json_def set_add_def send_controller_def py_int_def strip_def is_space_def
      is_digit_def digit_val_def)

subsection \<open>The coordinator\<close>

lemma os_path_join_inj: "b \<noteq> [] \<Longrightarrow> hd b \<noteq> CHR ''/'' \<Longrightarrow> b' \<noteq> [] \<Longrightarrow> hd b' \<noteq> CHR ''/'' \<Longrightarrow>
  os_path_join a b = os_path_join a b' \<Longrightarrow> b = b'"
  by (auto simp: os_path_join_def split: if_splits)

lemma output_dir_name_inj: "output_dir_name d sc a = output_dir_name d sc b \<Longrightarrow> a = b"
proof -
  assume e: "output_dir_name d sc a = output_dir_name d sc b"
  have "''output-'' @ str_int sc @ ''-'' @ str_nat a = ''output-'' @ str_int sc @ ''-'' @ str_nat b"
    using e unfolding output_dir_name_def by (rule os_path_join_inj[rotated -1]) simp_all
  then show "a = b" by (simp add: str_nat_inj)
qed

lemma finite_used: "finite {k. path_exists fs (output_dir_name d sc k)}"
proof -
  have "inj (output_dir_name d sc)" by (rule injI) (rule output_dir_name_inj)
  then have "finite (output_dir_name d sc -` (fst ` set fs))" by (intro finite_vimageI) simp_all
  then show ?thesis by (simp add: path_exists_def vimage_def)
qed

lemma make_output_dir_finds:
  "\<exists>c. ctr < c \<and>
     make_output_dir fs d sc ctr =
       Some (Inr (output_dir_name d sc c, fs @ [(output_dir_name d sc c, Directory)])) \<and>
     \<not> path_exists fs (output_dir_name d sc c) \<and>
     (\<forall>k. ctr < k \<and> k < c \<longrightarrow> path_exists fs (output_dir_name d sc k))"
proof (induction "card {k. ctr < k \<and> path_exists fs (output_dir_name d sc k)}" arbitrary: ctr rule: less_induct)
  case less
  let ?U = "\<lambda>c. {k. c < k \<and> path_exists fs (output_dir_name d sc k)}"
  show ?case
  proof (cases "path_exists fs (output_dir_name d sc (ctr + 1))")
    case False
    then have "make_output_dir fs d sc ctr =
        Some (Inr (output_dir_name d sc (ctr + 1), fs @ [(output_dir_name d sc (ctr + 1), Directory)]))"
      by (subst make_output_dir.simps) (simp add: os_mkdir_def)
    with False show ?thesis by (intro exI[of _ "ctr + 1"]) auto
  next
    case True
    have fin: "finite (?U ctr)" using finite_used[of fs d sc] by (rule rev_finite_subset) auto
    have "?U (ctr + 1) \<subset> ?U ctr" using True by auto
    then have "card (?U (ctr + 1)) < card (?U ctr)" using fin by (rule psubset_card_mono[rotated])
    from less[OF this] obtain c where c: "ctr + 1 < c"
      "make_output_dir fs d sc (ctr + 1) =
         Some (Inr (output_dir_name d sc c, fs @ [(output_dir_name d sc c, Directory)]))"
      "\<not> path_exists fs (output_dir_name d sc c)"
      "\<forall>k. ctr + 1 < k \<and> k < c \<longrightarrow> path_exists fs (output_dir_name d sc k)"
      by blast
    have "make_output_dir fs d sc ctr = make_output_dir fs d sc (ctr + 1)"
      using True by (subst make_output_dir.simps) (simp add: os_mkdir_def)
    moreover have "\<forall>k. ctr < k \<and> k < c \<longrightarrow> path_exists fs (output_dir_name d sc k)"
    proof (intro allI impI)
      fix k assume "ctr < k \<and> k < c"
      then have "k = ctr + 1 \<or> (ctr + 1 < k \<and> k < c)" by auto
      then show "path_exists fs (output_dir_name d sc k)" using True c(4) by auto
    qed
    ultimately show ?thesis using c by (intro exI[of _ c]) auto
  qed
qed

lemma write_files_extends:
  "write_files ps fs = (e, fs') \<Longrightarrow>
     \<exists>new. fs' = fs @ new \<and> (\<forall>p \<in> fst ` set new. \<not> path_exists fs p)"
proof (induction ps arbitrary: fs)
  case Nil
  then show ?case by simp
next
  case (Cons pc ps)
  obtain p c where pc: "pc = (p, c)" by (cases pc)
  show ?case
  proof (cases "path_exists fs p")
    case True
    with Cons.prems pc show ?thesis by (simp add: open_x_write_def)
  next
    case False
    with Cons.prems pc have "write_files ps (fs @ [(p, File c)]) = (e, fs')"
      by (simp add: open_x_write_def)
    from Cons.IH[OF this] obtain new where new: "fs' = (fs @ [(p, File c)]) @ new"
      "\<forall>q \<in> fst ` set new. \<not> path_exists (fs @ [(p, File c)]) q" by blast
    show ?thesis
    proof (intro exI[of _ "(p, File c) # new"] conjI ballI)
      show "fs' = fs @ (p, File c) # new" using new(1) by simp
      fix q assume "q \<in> fst ` set ((p, File c) # new)"
      then have "q = p \<or> q \<in> fst ` set new" by auto
      then show "\<not> path_exists fs q"
      proof
        assume "q = p" then show ?thesis using False by simp
      next
        assume "q \<in> fst ` set new"
        with new(2) have "\<not> path_exists (fs @ [(p, File c)]) q" by blast
        then show ?thesis by (simp add: path_exists_def)
      qed
    qed
  qed
qed

lemma output_dir_name_d5:
  "output_dir_name ''d'' 5 (Suc 0) = ''d/output-5-1''"
  "output_dir_name ''d'' 5 2 = ''d/output-5-2''"
  "output_dir_name ''d'' 5 3 = ''d/output-5-3''"
  by (simp_all add: output_dir_name_def os_path_join_def str_int_def str_nat.simps digit_char_def)

text \<open>
  C9. \<open>write_candidate\<close> tries the names \<open>output-{score}-{ctr}\<close> for \<open>ctr = 1, 2, ...\<close>:
  there is a first \<open>ctr\<close> whose name does not exist, every smaller one exists, the loop
  stops there with that directory created, and the function does not loop forever. What
  it leaves behind is the old file system with the new directory and further new paths
  after it, none of which existed before: nothing that existed is reused or overwritten.
\<close>

theorem write_candidate_fresh_directory:
  "\<exists>c r. 1 \<le> c \<and>
     (\<forall>k. 1 \<le> k \<and> k < c \<longrightarrow> path_exists (files st) (output_dir_name (dir perm) (score res) k)) \<and>
     \<not> path_exists (files st) (output_dir_name (dir perm) (score res) c) \<and>
     make_output_dir (files st) (dir perm) (score res) 0 =
       Some (Inr (output_dir_name (dir perm) (score res) c,
                  files st @ [(output_dir_name (dir perm) (score res) c, Directory)])) \<and>
     write_candidate ms perm res st = r \<and> r \<noteq> Hangs (state_of r) \<and>
     (\<exists>new. files (state_of r) = files st @ (output_dir_name (dir perm) (score res) c, Directory) # new \<and>
            (\<forall>p \<in> fst ` set new. \<not> path_exists (files st) p))"
proof -
  let ?name = "output_dir_name (dir perm) (score res)"
  from make_output_dir_finds[of 0 "files st" "dir perm" "score res"]
  obtain c where c: "0 < c"
    "make_output_dir (files st) (dir perm) (score res) 0 = Some (Inr (?name c, files st @ [(?name c, Directory)]))"
    "\<not> path_exists (files st) (?name c)"
    "\<forall>k. 0 < k \<and> k < c \<longrightarrow> path_exists (files st) (?name k)"
    by blast
  let ?fs1 = "files st @ [(?name c, Directory)]"
  let ?r = "write_candidate ms perm res st"
  have "?r \<noteq> Hangs (state_of ?r) \<and>
        (\<exists>new. files (state_of ?r) = files st @ (?name c, Directory) # new \<and>
               (\<forall>p \<in> fst ` set new. \<not> path_exists (files st) p))"
  proof (cases "source res")
    case None
    then have "?r = Raise AssertionError (st\<lparr>files := ?fs1\<rparr>)"
      by (simp add: write_candidate_def c(2))
    then show ?thesis by (simp add: state_of_def)
  next
    case (Some src)
    let ?ps = "[(os_path_join (?name c) ''source.c'', src),
                (os_path_join (?name c) ''base.c'', base_source perm),
                (os_path_join (?name c) ''score.txt'', str_int (score res) @ [CHR 0x0A]),
                (os_path_join (?name c) ''diff.txt'', diff ms perm src @ [CHR 0x0A])]"
    obtain e fs2 where w: "write_files ?ps ?fs1 = (e, fs2)" by (cases "write_files ?ps ?fs1")
    from write_files_extends[OF w] obtain new where new: "fs2 = ?fs1 @ new"
      "\<forall>p \<in> fst ` set new. \<not> path_exists ?fs1 p" by blast
    have nw: "\<forall>p \<in> fst ` set new. \<not> path_exists (files st) p"
      using new(2) by (auto simp: path_exists_def)
    have r: "?r = (case e of Some x \<Rightarrow> Raise x (st\<lparr>files := fs2\<rparr>)
                  | None \<Rightarrow> Ok () (emit [Print (''wrote to '' @ ?name c)] (st\<lparr>files := fs2\<rparr>)))"
      using Some w by (simp add: write_candidate_def c(2) split: option.splits)
    have "files (state_of ?r) = fs2" unfolding r by (cases e) (simp_all add: state_of_def emit_def)
    moreover have "?r \<noteq> Hangs (state_of ?r)" unfolding r by (cases e) simp_all
    ultimately show ?thesis using new(1) nw by auto
  qed
  with c show ?thesis by (intro exI[of _ c] exI[of _ ?r]) auto
qed

theorem write_candidate_fresh_directory_witness:
  "path_exists (files start_state) (output_dir_name (dir func_permuter) (score five) 1) \<and>
   path_exists (files start_state) (output_dir_name (dir func_permuter) (score five) 2) \<and>
   \<not> path_exists (files start_state) (output_dir_name (dir func_permuter) (score five) 3) \<and>
   make_output_dir (files start_state) (dir func_permuter) (score five) 0 =
     Some (Inr (''d/output-5-3'', files start_state @ [(''d/output-5-3'', Directory)]))"
proof -
  let ?name = "output_dir_name (dir func_permuter) (score five)"
  have n: "?name 1 = ''d/output-5-1''" "?name 2 = ''d/output-5-2''" "?name 3 = ''d/output-5-3''"
    by (simp_all add: func_permuter_def five_def output_dir_name_d5)
  have e1: "path_exists (files start_state) (?name 1)"
    and e2: "path_exists (files start_state) (?name 2)"
    and e3: "\<not> path_exists (files start_state) (?name 3)"
    unfolding n by (simp_all add: path_exists_def start_state_def)
  from write_candidate_fresh_directory[of start_state func_permuter five simple_ops]
  obtain c where c: "1 \<le> c"
    "\<forall>k. 1 \<le> k \<and> k < c \<longrightarrow> path_exists (files start_state) (?name k)"
    "\<not> path_exists (files start_state) (?name c)"
    "make_output_dir (files start_state) (dir func_permuter) (score five) 0 =
       Some (Inr (?name c, files start_state @ [(?name c, Directory)]))"
    by blast
  have "c \<noteq> 1" "c \<noteq> 2" using c(3) e1 e2 by auto
  moreover have "\<not> 3 < c" using c(2) e3 by auto
  ultimately have "c = 3" using c(1) by arith
  with c(4) e1 e2 e3 show ?thesis by (simp add: n)
qed

text \<open>
  C6, as the code has it. For an \<open>EvalError\<close>, \<open>post_score\<close> prints the error, prints the
  line with the seed exactly when the error carries a seed, and changes nothing else: the
  error tally and the iteration count stay as they were. It then ends the run with exit
  status 1 when \<open>abort_exceptions\<close> is set, and returns false otherwise.
\<close>

theorem post_score_eval_error:
  "post_score ms idx (EvalError exc_str seed) who st =
     (let st' = st\<lparr>events := events st @
                   [PrinterPrint ''internal permuter failure.'' (Some (permuters (ctx st) ! idx)) who
                      (Some True) None,
                    Print exc_str] @
                   (case seed of
                      None \<Rightarrow> []
                    | Some sd \<Rightarrow> [Print (''To reproduce the failure, rerun with: --seed '' @ seed_str sd)])\<rparr>
      in if abort_exceptions (options (ctx st)) then Raise (SystemExit 1) st' else Ok False st')"
  by (cases seed) (simp_all add: post_score_def post_score_error_def emit_def Let_def)

text \<open>
  The claim C6 as stated fails twice: an \<open>EvalError\<close> without a seed prints no line with
  a seed, and an \<open>EvalError\<close> leaves the error tally where it was.
\<close>

theorem post_score_eval_error_counterexample:
  "post_score simple_ops 0 (EvalError ''boom'' None) None start_state =
     Ok False (start_state\<lparr>events :=
        [PrinterPrint ''internal permuter failure.'' (Some func_permuter) None (Some True) None,
         Print ''boom'']\<rparr>) \<and>
   errors (ctx (state_of (post_score simple_ops 0 (EvalError ''boom'' (Some (0, 42))) None start_state)))
     = errors (ctx start_state)"
  by (simp add: post_score_def post_score_error_def emit_def Let_def start_state_def
      some_options_def state_of_def)

text \<open>
  C1. The claim fails on \<open>cycle_seeds\<close>: with three permuters whose iterators hold three,
  one and two seeds, the fourth and fifth items both come from permuter 0, while permuter
  2, which still has a seed, yields nothing between them. After \<open>del iterators[i]\<close> the
  code steps \<open>i\<close> back, so the permuter that yielded last yields again.
\<close>

theorem cycle_seeds_after_exhaustion:
  "cycle_take 7 (cycle_seeds [iter_of_list [11, 12, 13 :: int], iter_of_list [21], iter_of_list [31, 32]])
     = [(0, 11), (1, 21), (2, 31), (0, 12), (0, 13), (2, 32)]"
  by (simp add: cycle_seeds_def iter_of_list_def next_item_def cycle_next.simps numeral_eq_Suc Let_def)

text \<open>
  C2. The claim fails on \<open>multiprocess_worker\<close>: when the worker's non-blocking \<open>get\<close>
  meets an empty queue, \<open>queue.Empty\<close> is raised, which the worker does not catch. The
  worker ends there, having put nothing on the feedback queue: no \<open>NeedMoreWork\<close>, no
  switch to a blocking \<open>get\<close>. This holds whether a task comes later or not.
\<close>

theorem worker_dies_on_empty_queue:
  "multiprocess_worker ms perms (Later item # rest) = (Died QueueEmpty, [], perms) \<and>
   multiprocess_worker ms perms (Never # rest) = (Died QueueEmpty, [], perms) \<and>
   multiprocess_worker ms perms [] = (Died QueueEmpty, [], perms)"
  by (simp add: multiprocess_worker_def queue_get_def)

lemma same_locals_refl [simp]: "same_locals st st"
  by (simp add: same_locals_def)

lemma same_locals_trans: "same_locals a b \<Longrightarrow> same_locals b c \<Longrightarrow> same_locals a c"
  by (simp add: same_locals_def)

lemma same_locals_emit [simp]: "same_locals st (emit es st)"
  by (simp add: same_locals_def emit_def)

lemma same_locals_files [simp]: "same_locals st (st\<lparr>files := fs\<rparr>)"
  by (simp add: same_locals_def)

lemma same_locals_set_permuter [simp]: "same_locals st (set_permuter k p st)"
  by (simp add: same_locals_def set_permuter_def)

lemma write_candidate_locals:
  "same_locals st (state_of (write_candidate ms perm res st)) \<and>
   write_candidate ms perm res st \<noteq> Hangs s"
proof -
  from make_output_dir_finds[of 0 "files st" "dir perm" "score res"]
  obtain c where c:
    "make_output_dir (files st) (dir perm) (score res) 0 =
       Some (Inr (output_dir_name (dir perm) (score res) c,
                  files st @ [(output_dir_name (dir perm) (score res) c, Directory)]))"
    by blast
  show ?thesis
    by (auto simp: write_candidate_def c state_of_def same_locals_def emit_def
             split: option.splits prod.splits)
qed


lemma same_locals_ctx:
  "options c = options (ctx st) \<Longrightarrow> same_locals st (st\<lparr>ctx := c\<rparr>)"
  by (simp add: same_locals_def)

lemma post_score_error_locals:
  "same_locals st (state_of (post_score_error p exc_str seed who st)) \<and>
   post_score_error p exc_str seed who st \<noteq> Hangs s"
  by (cases seed) (simp_all add: post_score_error_def Let_def state_of_def same_locals_def emit_def)

lemma show_diff_locals: "show_diff ms permuter res st = Inr st1 \<Longrightarrow> same_locals st st1"
  by (auto simp: show_diff_def split: if_splits option.splits)

lemma count_result_options [simp]: "options (count_result ms permuter res c) = options c"
  by (simp add: count_result_def Let_def)

lemma output_candidate_locals:
  "same_locals st (state_of (output_candidate ms k permuter res who st)) \<and>
   output_candidate ms k permuter res who st \<noteq> Hangs s"
proof (cases "should_output ms permuter res")
  case False
  then show ?thesis by (simp add: output_candidate_def state_of_def)
next
  case True
  let ?p1 = "record_result ms permuter res"
  obtain color msg where cm:
    "score_message (score res) (best_score permuter) (base_score ?p1) = (color, msg)"
    by (cases "score_message (score res) (best_score permuter) (base_score ?p1)")
  let ?st1 = "emit [PrinterPrint msg (Some ?p1) who None (Some color)] (set_permuter k ?p1 st)"
  have bd: "output_candidate ms k permuter res who st = write_candidate ms ?p1 res ?st1"
    using True cm by (simp add: output_candidate_def Let_def)
  have "same_locals st ?st1"
    by (rule same_locals_trans[OF same_locals_set_permuter same_locals_emit])
  then show ?thesis unfolding bd
    using write_candidate_locals[of ?st1 ms ?p1 res s] by (blast intro: same_locals_trans)
qed

lemma post_score_candidate_locals:
  "same_locals st (state_of (post_score_candidate ms k res who st)) \<and>
   post_score_candidate ms k res who st \<noteq> Hangs s"
proof -
  let ?p = "permuters (ctx st) ! k"
  show ?thesis
  proof (cases "show_diff ms ?p res st")
    case (Inl e)
    then show ?thesis by (simp add: post_score_candidate_def state_of_def Let_def)
  next
    case (Inr st1)
    let ?c = "count_result ms ?p res (ctx st1)"
    let ?st2 = "st1\<lparr>ctx := ?c\<rparr>"
    let ?body = "output_candidate ms k ?p res who ?st2"
    have l2: "same_locals st ?st2"
      using show_diff_locals[OF Inr] by (rule same_locals_trans) (simp add: same_locals_ctx)
    have b: "same_locals st (state_of ?body) \<and> ?body \<noteq> Hangs s'" for s'
      using output_candidate_locals[of ?st2 ms k ?p res who s'] l2 by (blast intro: same_locals_trans)
    show ?thesis
    proof (cases ?body)
      case (Ok u st4)
      with b[of s] have "same_locals st st4" by (simp add: state_of_def)
      then have "same_locals st (emit es st4)" for es
        by (rule same_locals_trans) simp
      then show ?thesis using Inr Ok by (simp add: post_score_candidate_def state_of_def Let_def)
    next
      case (Raise e st4)
      with b[of s] show ?thesis using Inr by (simp add: post_score_candidate_def state_of_def Let_def)
    next
      case (Hangs st4)
      with b[of st4] show ?thesis by simp
    qed
  qed
qed

lemma post_score_locals:
  "same_locals st (state_of (post_score ms k result who st)) \<and> post_score ms k result who st \<noteq> Hangs s"
  by (cases result) (simp_all add: post_score_def post_score_error_locals post_score_candidate_locals)

subsection \<open>Leaving the first loop\<close>

lemma process_result_effect:
  "process_result ms i res who st \<noteq> Hangs s"
  "same_locals st (state_of (process_result ms i res who st))"
proof -
  have *: "process_result ms i res who st \<noteq> Hangs s \<and>
           same_locals st (state_of (process_result ms i res who st))"
  proof (cases "py_index (length (permuters (ctx st))) i")
    case (Inl e)
    then show ?thesis by (simp add: process_result_def state_of_def)
  next
    case (Inr k)
    then have "process_result ms i res who st = post_score ms k res who st"
      by (simp add: process_result_def)
    then show ?thesis using post_score_locals[of st ms k res who s] by simp
  qed
  then show "process_result ms i res who st \<noteq> Hangs s"
    and "same_locals st (state_of (process_result ms i res who st))" by simp_all
qed

lemma process_finish_effect [simp]:
  "active_workers (process_finish reason who st) = active_workers st - 1"
  "found_zero (process_finish reason who st) = found_zero st"
  "task_queue (process_finish reason who st) = task_queue st"
  "options (ctx (process_finish reason who st)) = options (ctx st)"
  by (simp_all add: process_finish_def Let_def emit_def split: option.splits)

lemma heartbeat_effect [simp]:
  "active_workers (heartbeat t st) = active_workers st"
  "found_zero (heartbeat t st) = found_zero st"
  "task_queue (heartbeat t st) = task_queue st"
  "ctx (heartbeat t st) = ctx st"
  "last_time (heartbeat t st) = t"
  by (simp_all add: heartbeat_def)

lemma emit_effect [simp]:
  "active_workers (emit es st) = active_workers st"
  "found_zero (emit es st) = found_zero st"
  "task_queue (emit es st) = task_queue st"
  "ctx (emit es st) = ctx st"
  by (simp_all add: emit_def)




lemma await_step_not_Stuck: "await_step ms a st \<noteq> Stuck s"
  using process_result_effect(1)
  by (auto simp: await_step_def Let_def split: arrival.splits feedback.splits result.splits)





lemma feed_loop_append_Ok:
  "feed_loop ms pre st = Ok r st1 \<Longrightarrow> feed_loop ms (pre @ later) st = Ok (r @ later) st1"
proof (induction pre arbitrary: st)
  case Nil
  then show ?case by (cases later) (auto split: if_splits)
next
  case (Cons a pre)
  then show ?case by (auto split: if_splits step.splits)
qed














lemma feed_step_not_Stuck: "feed_step ms a st \<noteq> Stuck s"
  using process_result_effect(1)
  by (auto simp: feed_step_def put_task_def Let_def
           split: arrival.splits feedback.splits result.splits option.splits prod.splits)

lemma feed_loop_interrupt:
  "feed_loop ms pre st = Hangs s \<Longrightarrow>
     feed_loop ms (pre @ Interrupt t # later) st = Raise KeyboardInterrupt (heartbeat t s)"
proof (induction pre arbitrary: st)
  case Nil
  then show ?case by (auto simp: feed_step_def split: if_splits)
next
  case (Cons a pre)
  then show ?case using feed_step_not_Stuck[of ms a st] by (auto split: if_splits step.splits)
qed

lemma await_loop_interrupt:
  "await_loop ms pre st = Hangs s \<Longrightarrow>
     await_loop ms (pre @ Interrupt t # later) st = Raise KeyboardInterrupt (heartbeat t s)"
proof (induction pre arbitrary: st)
  case Nil
  then show ?case by (auto simp: await_step_def split: if_splits)
next
  case (Cons a pre)
  then show ?case using await_step_not_Stuck[of ms a st] by (auto split: if_splits step.splits)
qed

lemma run_workers_interrupt:
  assumes "run_workers ms pre st = Hangs s"
  shows "run_workers ms (pre @ Interrupt t # later) st = Raise KeyboardInterrupt (heartbeat t s)"
proof (cases "feed_loop ms pre st")
  case (Ok r st1)
  with assms have a: "await_loop ms r (signal_workers st1) = Hangs s" by (simp add: run_workers_def)
  from feed_loop_append_Ok[OF Ok] await_loop_interrupt[OF a] show ?thesis
    by (simp add: run_workers_def)
next
  case (Raise e st1)
  with assms show ?thesis by (simp add: run_workers_def)
next
  case (Hangs st1)
  with assms have "st1 = s" by (simp add: run_workers_def)
  with Hangs feed_loop_interrupt[of ms pre st s t later] show ?thesis by (simp add: run_workers_def)
qed

text \<open>
  C7, as the code has it. Whenever the coordinator is waiting for feedback in one of its
  two loops, an interrupt in the iteration whose heartbeat read the time \<open>t\<close> ends the
  run at once: with \<open>Aborting stuck process.\<close> and exit status 1 when the handler runs
  more than 5 seconds after \<open>t\<close>, with \<open>Exiting.\<close> and exit status 0 otherwise. The state
  is the one the coordinator was waiting in, so no \<open>Finished\<close> task is put on the queue
  and no further feedback is read: there is no drain, and no second interrupt is needed.
  The time compared is the heartbeat of the current iteration, whatever came before.
\<close>

theorem interrupt_exits_at_once:
  assumes "run_inner ms pre (st\<lparr>last_time := t0\<rparr>) = Hangs s"
  shows "run ms t0 (pre @ Interrupt t # later) now st =
           (if now - t > 5
            then Raise (SystemExit 1)
                   (emit [Print [], Print ''Aborting stuck process.'', PrintExc] (s\<lparr>last_time := t\<rparr>))
            else Raise (SystemExit 0) (emit [Print [], Print ''Exiting.''] (s\<lparr>last_time := t\<rparr>)))"
proof -
  let ?st = "st\<lparr>last_time := t0\<rparr>"
  from assms have nz: "active_workers ?st \<noteq> 0"
    and w: "run_workers ms pre (?st\<lparr>found_zero := False\<rparr>) = Hangs s"
    by (auto simp: run_inner_def split: if_splits result.splits)
  from run_workers_interrupt[OF w]
  have "run_inner ms (pre @ Interrupt t # later) ?st = Raise KeyboardInterrupt (heartbeat t s)"
    using nz by (simp add: run_inner_def)
  then show ?thesis by (simp add: run_def heartbeat_def)
qed

lemma waiting_after_one_request:
  "\<exists>s. run_inner simple_ops [Arrival 1 FbNeedMoreWork None] (start_state\<lparr>last_time := 0\<rparr>) = Hangs s \<and>
       task_queue s = [TaskWork 0 1] \<and> events s = []"
  by (simp add: run_inner_def run_workers_def start_state_def feed_step_def put_task_def heartbeat_def
      cycle_seeds_def iter_of_list_def next_item_def cycle_next.simps Let_def)

theorem interrupt_exits_at_once_witness:
  "raised (run simple_ops 0 ([Arrival 1 FbNeedMoreWork None] @ Interrupt 2 # []) 10 start_state)
     = Some (SystemExit 1) \<and>
   raised (run simple_ops 0 ([Arrival 1 FbNeedMoreWork None] @ Interrupt 2 # []) 5 start_state)
     = Some (SystemExit 0) \<and>
   task_queue (state_of (run simple_ops 0 ([Arrival 1 FbNeedMoreWork None] @ Interrupt 2 # []) 5 start_state))
     = [TaskWork 0 1]"
proof -
  from waiting_after_one_request obtain s where
    h: "run_inner simple_ops [Arrival 1 FbNeedMoreWork None] (start_state\<lparr>last_time := 0\<rparr>) = Hangs s"
    and q: "task_queue s = [TaskWork 0 1]"
    by blast
  from interrupt_exits_at_once[OF h, of 2 "[]" 10] interrupt_exits_at_once[OF h, of 2 "[]" 5] q
  show ?thesis by (simp add: raised_def state_of_def emit_def)
qed

text \<open>
  The claim C7 as stated fails: a single interrupt, handled 9 seconds after the last
  heartbeat, ends the run with \<open>Aborting stuck process.\<close> and exit status 1, and puts no
  \<open>Finished\<close> task on the queue; handled 2 seconds after it, it ends the run with exit
  status 0, again without a drain.
\<close>

theorem interrupt_counterexample:
  "raised (run simple_ops 0 [Interrupt 1] 10 start_state) = Some (SystemExit 1) \<and>
   events (state_of (run simple_ops 0 [Interrupt 1] 10 start_state)) =
     [Print [], Print ''Aborting stuck process.'', PrintExc] \<and>
   task_queue (state_of (run simple_ops 0 [Interrupt 1] 10 start_state)) = [] \<and>
   raised (run simple_ops 0 [Interrupt 1] 3 start_state) = Some (SystemExit 0) \<and>
   task_queue (state_of (run simple_ops 0 [Interrupt 1] 3 start_state)) = []"
  by (simp add: run_def run_inner_def run_workers_def start_state_def feed_step_def heartbeat_def
      raised_def state_of_def emit_def)


end
